theory Spec2Isabelle
  imports Complex_Main
begin

section \<open>The shared store: values, keys and the commands the scripts use\<close>

text \<open>
  The rate-limit decision engine keeps every bucket in a Redis keyspace and changes it
  only through Lua scripts (\<open>rate-limit.lua\<close>, \<open>token-bucket.lua\<close>,
  \<open>sliding-window.lua\<close>, \<open>leaky-bucket.lua\<close>) run by the \<open>RedisClient\<close> class
  of \<open>services/redis.ts\<close>.

  Numbers. Lua 5.1 and JavaScript have one number type, the IEEE double. A finite
  double is a rational number, and the keyspace, the arguments and the replies hold
  rationals (\<open>rat\<close>). \<open>token-bucket.lua\<close> and \<open>leaky-bucket.lua\<close> divide, and so does
  the wrapper \<open>leakyBucket\<close>: their arithmetic is modelled on doubles (section
  \<open>Doubles\<close>), every operation rounded to the nearest double, with \<open>inf\<close> and \<open>nan\<close>.
  \<open>sliding-window.lua\<close> and \<open>rate-limit.lua\<close> only add, subtract, compare and scale by a
  power of two the integers they are given: on integers below \<open>2^53\<close> that is exact, and
  their arithmetic is that of \<open>rat\<close>. Outside the model are the sign of zero, the 64-bit
  range of Redis integers, and the numbers that are not finite where a rational is
  needed (an \<open>inf\<close> or \<open>nan\<close> written to a hash field or returned in a reply, a power
  with a fractional exponent): there the model stops with the outcome \<open>NotRational\<close>.

  Strings that carry numbers. A number written by a script into a hash field or a
  sorted-set member is stored by Redis as its decimal string and read back with
  \<open>tonumber\<close>; the round trip is the identity, so hash fields and sorted-set
  members hold the numbers themselves.

  Time and other clients. A keyspace is the store at one moment: the scripts arm and
  read expiries, and a call takes its clock reading as an argument, but no key expires
  inside the model. All that another client does to the store in the model is to make it
  lose its script cache (section \<open>The store as the client sees it\<close>).
\<close>

datatype error =
    Error string   \<comment> \<open>a JavaScript \<open>Error\<close> (or a Redis error reply) with its message\<close>
  | NotRational    \<comment> \<open>a number that is not finite where a rational is needed\<close>

datatype rvalue =
    RString int                  \<comment> \<open>a counter, as \<open>INCR\<close> writes it\<close>
  | RHash "string \<rightharpoonup> rat"        \<comment> \<open>field name to number\<close>
  | RZSet "(rat \<times> rat) list"     \<comment> \<open>(member, score), one pair per member\<close>

text \<open>A key holds a value and, when an expiry is armed, its remaining time to live in
  milliseconds.\<close>

type_synonym keyspace = "string \<rightharpoonup> (rvalue \<times> int option)"

definition WRONGTYPE :: error where
  "WRONGTYPE = Error ''WRONGTYPE Operation against a key holding the wrong kind of value''"

definition NOT_AN_INTEGER :: error where
  "NOT_AN_INTEGER = Error ''ERR value is not an integer or out of range''"

definition NIL_ARITHMETIC :: error where
  "NIL_ARITHMETIC = Error ''ERR user_script: attempt to perform arithmetic on a nil value''"

definition BAD_ARGUMENTS :: error where
  "BAD_ARGUMENTS = Error ''ERR Error running script''"

definition is_integer :: "rat \<Rightarrow> bool" where
  "is_integer x = (x = of_int \<lfloor>x\<rfloor>)"

text \<open>\<open>INCR key\<close>: an absent key counts from 0; the expiry is kept.\<close>

definition redis_incr :: "string \<Rightarrow> keyspace \<Rightarrow> error + (int \<times> keyspace)" where
  "redis_incr key s =
     (case s key of
        None \<Rightarrow> Inr (1, s(key \<mapsto> (RString 1, None)))
      | Some (RString n, t) \<Rightarrow> Inr (n + 1, s(key \<mapsto> (RString (n + 1), t)))
      | Some (RHash h, t) \<Rightarrow> Inl WRONGTYPE
      | Some (RZSet z, t) \<Rightarrow> Inl WRONGTYPE)"

text \<open>\<open>PEXPIRE key ms\<close>: the argument must be an integer; on an absent key nothing
  happens; a time to live that is not positive deletes the key.\<close>

definition redis_pexpire :: "string \<Rightarrow> rat \<Rightarrow> keyspace \<Rightarrow> error + keyspace" where
  "redis_pexpire key ms s =
     (if is_integer ms then
        (case s key of
           None \<Rightarrow> Inr s
         | Some (v, t) \<Rightarrow>
             if ms \<le> 0 then Inr (s(key := None)) else Inr (s(key \<mapsto> (v, Some \<lfloor>ms\<rfloor>))))
      else Inl NOT_AN_INTEGER)"

text \<open>\<open>EXPIRE key seconds\<close>: as \<open>PEXPIRE\<close>, in seconds.\<close>

definition redis_expire :: "string \<Rightarrow> rat \<Rightarrow> keyspace \<Rightarrow> error + keyspace" where
  "redis_expire key seconds s =
     (if is_integer seconds then
        (case s key of
           None \<Rightarrow> Inr s
         | Some (v, t) \<Rightarrow>
             if seconds \<le> 0 then Inr (s(key := None))
             else Inr (s(key \<mapsto> (v, Some (\<lfloor>seconds\<rfloor> * 1000)))))
      else Inl NOT_AN_INTEGER)"

text \<open>\<open>PTTL key\<close>: -2 for an absent key, -1 for a key with no expiry.\<close>

definition redis_pttl :: "string \<Rightarrow> keyspace \<Rightarrow> int" where
  "redis_pttl key s =
     (case s key of
        None \<Rightarrow> - 2
      | Some (v, None) \<Rightarrow> - 1
      | Some (v, Some t) \<Rightarrow> t)"

text \<open>\<open>HMGET key f1 f2\<close>, as the scripts call it with two fields: an absent key or field
  reads as nil (\<open>None\<close>).\<close>

definition redis_hmget :: "string \<Rightarrow> string \<Rightarrow> string \<Rightarrow> keyspace \<Rightarrow> error + (rat option \<times> rat option)" where
  "redis_hmget key f1 f2 s =
     (case s key of
        None \<Rightarrow> Inr (None, None)
      | Some (RHash h, t) \<Rightarrow> Inr (h f1, h f2)
      | Some (RString n, t) \<Rightarrow> Inl WRONGTYPE
      | Some (RZSet z, t) \<Rightarrow> Inl WRONGTYPE)"

text \<open>\<open>HMSET key f1 v1 f2 v2\<close>: creates the hash when the key is absent; the expiry is
  kept.\<close>

definition redis_hmset :: "string \<Rightarrow> string \<Rightarrow> rat \<Rightarrow> string \<Rightarrow> rat \<Rightarrow> keyspace \<Rightarrow> error + keyspace" where
  "redis_hmset key f1 v1 f2 v2 s =
     (case s key of
        None \<Rightarrow> Inr (s(key \<mapsto> (RHash ((Map.empty(f1 \<mapsto> v1))(f2 \<mapsto> v2)), None)))
      | Some (RHash h, t) \<Rightarrow> Inr (s(key \<mapsto> (RHash ((h(f1 \<mapsto> v1))(f2 \<mapsto> v2)), t)))
      | Some (RString n, t) \<Rightarrow> Inl WRONGTYPE
      | Some (RZSet z, t) \<Rightarrow> Inl WRONGTYPE)"

text \<open>\<open>HGETALL key\<close>: the empty object for an absent key.\<close>

definition redis_hgetall :: "string \<Rightarrow> keyspace \<Rightarrow> error + (string \<rightharpoonup> rat)" where
  "redis_hgetall key s =
     (case s key of
        None \<Rightarrow> Inr Map.empty
      | Some (RHash h, t) \<Rightarrow> Inr h
      | Some (RString n, t) \<Rightarrow> Inl WRONGTYPE
      | Some (RZSet z, t) \<Rightarrow> Inl WRONGTYPE)"

text \<open>\<open>ZREMRANGEBYSCORE key min max\<close> removes the members whose score lies in
  \<open>[min, max]\<close>; a sorted set left empty is deleted with its key.\<close>

definition in_range :: "rat \<Rightarrow> rat \<Rightarrow> rat \<times> rat \<Rightarrow> bool" where
  "in_range lo hi p = (lo \<le> snd p \<and> snd p \<le> hi)"

definition redis_zremrangebyscore :: "string \<Rightarrow> rat \<Rightarrow> rat \<Rightarrow> keyspace \<Rightarrow> error + keyspace" where
  "redis_zremrangebyscore key lo hi s =
     (case s key of
        None \<Rightarrow> Inr s
      | Some (RZSet z, t) \<Rightarrow>
          (case filter (\<lambda>p. \<not> in_range lo hi p) z of
             [] \<Rightarrow> Inr (s(key := None))
           | p # ps \<Rightarrow> Inr (s(key \<mapsto> (RZSet (p # ps), t))))
      | Some (RString n, t) \<Rightarrow> Inl WRONGTYPE
      | Some (RHash h, t) \<Rightarrow> Inl WRONGTYPE)"

text \<open>\<open>ZCARD key\<close>: 0 for an absent key.\<close>

definition redis_zcard :: "string \<Rightarrow> keyspace \<Rightarrow> error + int" where
  "redis_zcard key s =
     (case s key of
        None \<Rightarrow> Inr 0
      | Some (RZSet z, t) \<Rightarrow> Inr (int (length z))
      | Some (RString n, t) \<Rightarrow> Inl WRONGTYPE
      | Some (RHash h, t) \<Rightarrow> Inl WRONGTYPE)"

text \<open>\<open>ZADD key score member\<close>: a member already in the set only has its score
  replaced.\<close>

fun zset_add :: "rat \<Rightarrow> rat \<Rightarrow> (rat \<times> rat) list \<Rightarrow> (rat \<times> rat) list" where
  "zset_add score member [] = [(member, score)]"
| "zset_add score member (p # ps) =
     (if fst p = member then (member, score) # ps else p # zset_add score member ps)"

definition redis_zadd :: "string \<Rightarrow> rat \<Rightarrow> rat \<Rightarrow> keyspace \<Rightarrow> error + keyspace" where
  "redis_zadd key score member s =
     (case s key of
        None \<Rightarrow> Inr (s(key \<mapsto> (RZSet [(member, score)], None)))
      | Some (RZSet z, t) \<Rightarrow> Inr (s(key \<mapsto> (RZSet (zset_add score member z), t)))
      | Some (RString n, t) \<Rightarrow> Inl WRONGTYPE
      | Some (RHash h, t) \<Rightarrow> Inl WRONGTYPE)"

section \<open>Doubles\<close>

text \<open>
  The numbers of Lua and JavaScript: the finite doubles, as the rationals they are, the
  two infinities and \<open>nan\<close>. The two zeros are not told apart (the scripts and the
  wrappers divide only by arguments, which \<open>toString\<close> never writes as \<open>-0\<close>).
\<close>

datatype double = Finite rat | PlusInfinity | MinusInfinity | NaN

text \<open>Rounding to the nearest integer, a tie to the even one.\<close>

definition round_even :: "rat \<Rightarrow> int" where
  "round_even x =
     (let f = \<lfloor>x\<rfloor>; d = x - of_int f
      in if d < 1 / 2 then f
         else if 1 / 2 < d then f + 1
         else if even f then f else f + 1)"

text \<open>
  A double is \<open>m * 2^e\<close> with \<open>\<bar>m\<bar> < 2^53\<close> and \<open>-1074 \<le> e \<le> 971\<close>. The doubles next to \<open>x\<close>
  are the multiples of \<open>2^e\<close> for the least such \<open>e\<close> with \<open>\<bar>x\<bar> < 2^(e + 53)\<close>
  (\<open>ulp_exponent\<close>; there is none from \<open>2^1024\<close> on), and \<open>x\<close> is rounded to the nearest
  of them, a tie to the one with the even \<open>m\<close>. A result of magnitude \<open>2^1024\<close> is an
  overflow: the operation gives an infinity.
\<close>

fun search_exponent :: "nat \<Rightarrow> int \<Rightarrow> rat \<Rightarrow> int option" where
  "search_exponent 0 e x = None"
| "search_exponent (Suc n) e x =
     (if \<bar>x\<bar> < 2 powi (e + 53) then Some e else search_exponent n (e + 1) x)"

definition ulp_exponent :: "rat \<Rightarrow> int option" where
  "ulp_exponent x = search_exponent 2046 (- 1074) x"

definition rounded :: "rat \<Rightarrow> rat" where
  "rounded x =
     (case ulp_exponent x of
        None \<Rightarrow> x
      | Some e \<Rightarrow> of_int (round_even (x / 2 powi e)) * 2 powi e)"

definition round_double :: "rat \<Rightarrow> double" where
  "round_double x =
     (let r = rounded x
      in if \<bar>r\<bar> < 2 ^ 1024 then Finite r
         else if 0 < x then PlusInfinity else MinusInfinity)"

text \<open>The infinity of a sign; \<open>nan\<close> when there is no sign (\<open>0 / 0\<close>, \<open>0 * inf\<close>).\<close>

definition signed_infinity :: "rat \<Rightarrow> double" where
  "signed_infinity s = (if s = 0 then NaN else if 0 < s then PlusInfinity else MinusInfinity)"

fun dsgn :: "double \<Rightarrow> rat" where
  "dsgn (Finite x) = sgn x"
| "dsgn PlusInfinity = 1"
| "dsgn MinusInfinity = - 1"
| "dsgn NaN = 0"

fun dneg :: "double \<Rightarrow> double" where
  "dneg (Finite x) = Finite (- x)"
| "dneg PlusInfinity = MinusInfinity"
| "dneg MinusInfinity = PlusInfinity"
| "dneg NaN = NaN"

text \<open>\<open>a + b\<close>, \<open>a - b\<close>, \<open>a * b\<close> and \<open>a / b\<close>.\<close>

fun dadd :: "double \<Rightarrow> double \<Rightarrow> double" where
  "dadd (Finite x) (Finite y) = round_double (x + y)"
| "dadd NaN b = NaN"
| "dadd a NaN = NaN"
| "dadd PlusInfinity MinusInfinity = NaN"
| "dadd MinusInfinity PlusInfinity = NaN"
| "dadd PlusInfinity b = PlusInfinity"
| "dadd a PlusInfinity = PlusInfinity"
| "dadd MinusInfinity b = MinusInfinity"
| "dadd a MinusInfinity = MinusInfinity"

definition dsub :: "double \<Rightarrow> double \<Rightarrow> double" where
  "dsub a b = dadd a (dneg b)"

fun dmul :: "double \<Rightarrow> double \<Rightarrow> double" where
  "dmul (Finite x) (Finite y) = round_double (x * y)"
| "dmul NaN b = NaN"
| "dmul a NaN = NaN"
| "dmul a b = signed_infinity (dsgn a * dsgn b)"

fun ddiv :: "double \<Rightarrow> double \<Rightarrow> double" where
  "ddiv (Finite x) (Finite y) = (if y = 0 then signed_infinity x else round_double (x / y))"
| "ddiv NaN b = NaN"
| "ddiv a NaN = NaN"
| "ddiv (Finite x) b = Finite 0"
| "ddiv a (Finite y) = signed_infinity (dsgn a * (if y < 0 then - 1 else 1))"
| "ddiv a b = NaN"

text \<open>\<open>a < b\<close> and \<open>a <= b\<close>: false when either side is \<open>nan\<close>.\<close>

fun dless :: "double \<Rightarrow> double \<Rightarrow> bool" where
  "dless (Finite x) (Finite y) = (x < y)"
| "dless NaN b = False"
| "dless a NaN = False"
| "dless a PlusInfinity = (a \<noteq> PlusInfinity)"
| "dless MinusInfinity b = (b \<noteq> MinusInfinity)"
| "dless a b = False"

fun dle :: "double \<Rightarrow> double \<Rightarrow> bool" where
  "dle NaN b = False"
| "dle a NaN = False"
| "dle a b = (\<not> dless b a)"

text \<open>
  \<open>math.floor\<close>, and \<open>math.max\<close> and \<open>math.min\<close> of two numbers as Lua 5.1 computes them:
  the first argument is kept unless the second is greater (smaller), so a \<open>nan\<close> in
  second place is dropped.
\<close>

fun dfloor :: "double \<Rightarrow> double" where
  "dfloor (Finite x) = Finite (of_int \<lfloor>x\<rfloor>)"
| "dfloor a = a"

definition lua_max :: "double \<Rightarrow> double \<Rightarrow> double" where
  "lua_max a b = (if dless a b then b else a)"

definition lua_min :: "double \<Rightarrow> double \<Rightarrow> double" where
  "lua_min a b = (if dless b a then b else a)"

section \<open>The four Lua scripts\<close>

text \<open>
  A script returns a Lua table of numbers; Redis converts each number to an integer by
  truncation. A \<open>redis.call\<close> that fails aborts the script with the error; what the
  script wrote before stays written (Redis does not roll back).
\<close>

definition lua_to_integer :: "rat \<Rightarrow> int" where
  "lua_to_integer x = (if 0 \<le> x then \<lfloor>x\<rfloor> else \<lceil>x\<rceil>)"

definition lua_reply :: "rat list \<Rightarrow> int list" where
  "lua_reply xs = map lua_to_integer xs"

text \<open>
  The scripts that compute on doubles. A number passed to \<open>redis.call\<close> is written with
  \<open>%.17g\<close>, which \<open>tonumber\<close> reads back as the same double. \<open>HMSET\<close> stores what it is
  given: an \<open>inf\<close> or \<open>nan\<close> has no place in the keyspace of the model. \<open>EXPIRE\<close> refuses
  \<open>inf\<close> and \<open>nan\<close> as it refuses a fraction. A reply of finite numbers is converted as
  above.
\<close>

definition call_hmset :: "string \<Rightarrow> string \<Rightarrow> double \<Rightarrow> string \<Rightarrow> double \<Rightarrow> keyspace \<Rightarrow> error + keyspace" where
  "call_hmset key f1 v1 f2 v2 s =
     (case v1 of
        Finite x1 \<Rightarrow>
          (case v2 of
             Finite x2 \<Rightarrow> redis_hmset key f1 x1 f2 x2 s
           | _ \<Rightarrow> Inl NotRational)
      | _ \<Rightarrow> Inl NotRational)"

definition call_expire :: "string \<Rightarrow> double \<Rightarrow> keyspace \<Rightarrow> error + keyspace" where
  "call_expire key seconds s =
     (case seconds of
        Finite x \<Rightarrow> redis_expire key x s
      | _ \<Rightarrow> Inl NOT_AN_INTEGER)"

fun finite_values :: "double list \<Rightarrow> rat list option" where
  "finite_values [] = Some []"
| "finite_values (Finite x # ds) =
     (case finite_values ds of
        Some xs \<Rightarrow> Some (x # xs)
      | None \<Rightarrow> None)"
| "finite_values (d # ds) = None"

definition lua_return :: "double list \<Rightarrow> error + int list" where
  "lua_return ds =
     (case finite_values ds of
        Some xs \<Rightarrow> Inr (lua_reply xs)
      | None \<Rightarrow> Inl NotRational)"

subsection \<open>token-bucket.lua\<close>

text \<open>Lines 10 to 18: the refill. The result is the pair \<open>(tokens, last_refill)\<close>.\<close>

definition token_refill :: "rat \<Rightarrow> rat \<Rightarrow> rat \<Rightarrow> rat option \<Rightarrow> rat option \<Rightarrow> error + (double \<times> double)" where
  "token_refill limit window now tokens last_refill =
     (case tokens of
        None \<Rightarrow> Inr (Finite limit, Finite now)
      | Some tk \<Rightarrow>
          (case last_refill of
             None \<Rightarrow> Inl NIL_ARITHMETIC
           | Some lr \<Rightarrow>
               let time_passed = dsub (Finite now) (Finite lr);
                   tokens_to_add = dmul (dfloor (ddiv time_passed (Finite 1000)))
                                        (ddiv (Finite limit) (Finite window))
               in Inr (lua_min (Finite limit) (dadd (Finite tk) tokens_to_add), Finite now)))"

text \<open>Lines 20 to 24: the admission. The result is the pair \<open>(tokens, allowed)\<close>.\<close>

definition token_take :: "double \<Rightarrow> double \<times> rat" where
  "token_take tokens =
     (if dle (Finite 1) tokens then (dsub tokens (Finite 1), 1) else (tokens, 0))"

definition token_bucket_lua :: "string \<Rightarrow> rat \<Rightarrow> rat \<Rightarrow> rat \<Rightarrow> keyspace \<Rightarrow> (error + int list) \<times> keyspace" where
  "token_bucket_lua key limit window now s =
     (case redis_hmget key ''tokens'' ''last_refill'' s of
        Inl e \<Rightarrow> (Inl e, s)
      | Inr (bucket1, bucket2) \<Rightarrow>
          (case token_refill limit window now bucket1 bucket2 of
             Inl e \<Rightarrow> (Inl e, s)
           | Inr (refilled, last_refill) \<Rightarrow>
               (case token_take refilled of
                  (tokens, allowed) \<Rightarrow>
                    (case call_hmset key ''tokens'' tokens ''last_refill'' last_refill s of
                       Inl e \<Rightarrow> (Inl e, s)
                     | Inr s1 \<Rightarrow>
                         (case call_expire key (dmul (Finite window) (Finite 2)) s1 of
                            Inl e \<Rightarrow> (Inl e, s1)
                          | Inr s2 \<Rightarrow>
                              (lua_return [Finite allowed, dfloor tokens,
                                           dadd last_refill (dmul (Finite window) (Finite 1000))],
                               s2))))))"

subsection \<open>leaky-bucket.lua\<close>

text \<open>Lines 28 to 33: the leak since \<open>last_leak\<close>. The leak rate is the one argument that
  need not be finite.\<close>

definition leak :: "double \<Rightarrow> rat \<Rightarrow> rat option \<Rightarrow> rat option \<Rightarrow> double" where
  "leak leak_rate now bucket1 bucket2 =
     (let water = (case bucket1 of Some w \<Rightarrow> w | None \<Rightarrow> 0);
          last_leak = (case bucket2 of Some l \<Rightarrow> l | None \<Rightarrow> now);
          time_passed = ddiv (dsub (Finite now) (Finite last_leak)) (Finite 1000);
          leaked = dmul time_passed leak_rate
      in lua_max (Finite 0) (dsub (Finite water) leaked))"

text \<open>Lines 35 to 39: the admission. The result is the pair \<open>(water, allowed)\<close>.\<close>

definition pour :: "rat \<Rightarrow> double \<Rightarrow> double \<times> rat" where
  "pour capacity water =
     (if dless water (Finite capacity) then (dadd water (Finite 1), 1) else (water, 0))"

text \<open>The argument of \<open>EXPIRE\<close> is \<open>capacity / leak_rate\<close> as it comes: when the quotient
  is not an integer Redis refuses it, and the script fails after its \<open>HMSET\<close>.\<close>

definition leaky_bucket_lua :: "string \<Rightarrow> rat \<Rightarrow> double \<Rightarrow> rat \<Rightarrow> keyspace \<Rightarrow> (error + int list) \<times> keyspace" where
  "leaky_bucket_lua key capacity leak_rate now s =
     (case redis_hmget key ''water'' ''last_leak'' s of
        Inl e \<Rightarrow> (Inl e, s)
      | Inr (bucket1, bucket2) \<Rightarrow>
          (case pour capacity (leak leak_rate now bucket1 bucket2) of
             (water, allowed) \<Rightarrow>
               (case call_hmset key ''water'' water ''last_leak'' (Finite now) s of
                  Inl e \<Rightarrow> (Inl e, s)
                | Inr s1 \<Rightarrow>
                    (case call_expire key (ddiv (Finite capacity) leak_rate) s1 of
                       Inl e \<Rightarrow> (Inl e, s1)
                     | Inr s2 \<Rightarrow>
                         (lua_return [Finite allowed, dfloor (dsub (Finite capacity) water),
                                      dadd (Finite now)
                                        (dmul (ddiv water leak_rate) (Finite 1000))],
                          s2)))))"

subsection \<open>sliding-window.lua\<close>

definition sliding_window_lua :: "string \<Rightarrow> rat \<Rightarrow> rat \<Rightarrow> rat \<Rightarrow> rat \<Rightarrow> keyspace \<Rightarrow> (error + int list) \<times> keyspace" where
  "sliding_window_lua key limit window_start now window_ms s =
     (case redis_zremrangebyscore key 0 window_start s of
        Inl e \<Rightarrow> (Inl e, s)
      | Inr s1 \<Rightarrow>
          (case redis_zcard key s1 of
             Inl e \<Rightarrow> (Inl e, s1)
           | Inr current \<Rightarrow>
               (case (if of_int current < limit
                      then (case redis_zadd key now now s1 of
                              Inl e \<Rightarrow> Inl e
                            | Inr s2 \<Rightarrow> Inr (1, current + 1, s2))
                      else Inr (0, current, s1)) of
                  Inl e \<Rightarrow> (Inl e, s1)
                | Inr (allowed, current', s2) \<Rightarrow>
                    (case redis_expire key (of_int \<lceil>window_ms / 1000\<rceil>) s2 of
                       Inl e \<Rightarrow> (Inl e, s2)
                     | Inr s3 \<Rightarrow>
                         (Inr (lua_reply [allowed, max 0 (limit - of_int current'), now + window_ms]),
                          s3)))))"

subsection \<open>rate-limit.lua\<close>

definition MAX_SAFE_INTEGER :: rat where
  "MAX_SAFE_INTEGER = 2 ^ 53 - 1"

definition rate_limit_lua :: "string \<Rightarrow> rat \<Rightarrow> rat \<Rightarrow> bool \<Rightarrow> bool \<Rightarrow> keyspace \<Rightarrow> (error + int list) \<times> keyspace" where
  "rate_limit_lua key timeWindow max_hits continueExceeding exponentialBackoff s =
     (case redis_incr key s of
        Inl e \<Rightarrow> (Inl e, s)
      | Inr (current, s1) \<Rightarrow>
          if current = 1 \<or> (continueExceeding \<and> of_int current > max_hits) then
            (case redis_pexpire key timeWindow s1 of
               Inl e \<Rightarrow> (Inl e, s1)
             | Inr s2 \<Rightarrow> (Inr (lua_reply [of_int current, timeWindow]), s2))
          else if exponentialBackoff \<and> of_int current > max_hits then
            (if is_integer max_hits then
               (let backoffExponent = current - \<lfloor>max_hits\<rfloor> - 1;
                    timeWindow' = min (timeWindow * 2 ^ nat backoffExponent) MAX_SAFE_INTEGER
                in case redis_pexpire key timeWindow' s1 of
                     Inl e \<Rightarrow> (Inl e, s1)
                   | Inr s2 \<Rightarrow> (Inr (lua_reply [of_int current, timeWindow']), s2))
             else (Inl NotRational, s1))
          else (Inr (lua_reply [of_int current, of_int (redis_pttl key s1)]), s1))"

section \<open>The store as the client sees it\<close>

text \<open>
  \<open>LUA_SCRIPTS\<close> of \<open>services/redis.ts\<close> holds the text of the four script files under
  the names \<open>rateLimit\<close>, \<open>tokenBucket\<close>, \<open>slidingWindow\<close> and \<open>leakyBucket\<close>. A script
  text is identified with the script it denotes.
\<close>

datatype lua_script = RateLimitScript | TokenBucketScript | SlidingWindowScript | LeakyBucketScript

definition LUA_SCRIPTS :: "string \<rightharpoonup> lua_script" where
  "LUA_SCRIPTS =
     [''rateLimit'' \<mapsto> RateLimitScript,
      ''tokenBucket'' \<mapsto> TokenBucketScript,
      ''slidingWindow'' \<mapsto> SlidingWindowScript,
      ''leakyBucket'' \<mapsto> LeakyBucketScript]"

text \<open>The digest Redis assigns to a script text (its SHA-1, in hexadecimal) is taken as
  an injective naming of the four texts.\<close>

fun sha1hex :: "lua_script \<Rightarrow> string" where
  "sha1hex RateLimitScript = ''sha1:rate-limit.lua''"
| "sha1hex TokenBucketScript = ''sha1:token-bucket.lua''"
| "sha1hex SlidingWindowScript = ''sha1:sliding-window.lua''"
| "sha1hex LeakyBucketScript = ''sha1:leaky-bucket.lua''"

text \<open>
  An entry of \<open>ARGV\<close>. The wrappers pass \<open>x.toString()\<close>; the scripts read a number with
  \<open>tonumber(ARGV[i])\<close> and a flag with \<open>ARGV[i] == 'true'\<close>. \<open>ANum x\<close> is the decimal
  string of \<open>x\<close>, \<open>ABool b\<close> the string \<open>true\<close> or \<open>false\<close>; \<open>AInfinity\<close>,
  \<open>AMinusInfinity\<close> and \<open>ANaN\<close> are the strings \<open>Infinity\<close>, \<open>-Infinity\<close> and \<open>NaN\<close>
  that \<open>toString\<close> gives a number that is not finite. \<open>tonumber\<close> reads all of them but
  the flags (\<open>toString\<close> writes the shortest decimal that reads back as the same
  double).
\<close>

datatype arg = ANum rat | ABool bool | AInfinity | AMinusInfinity | ANaN

fun toString :: "double \<Rightarrow> arg" where
  "toString (Finite x) = ANum x"
| "toString PlusInfinity = AInfinity"
| "toString MinusInfinity = AMinusInfinity"
| "toString NaN = ANaN"

fun tonumber :: "arg \<Rightarrow> double option" where
  "tonumber (ANum x) = Some (Finite x)"
| "tonumber (ABool b) = None"
| "tonumber AInfinity = Some PlusInfinity"
| "tonumber AMinusInfinity = Some MinusInfinity"
| "tonumber ANaN = Some NaN"

text \<open>Running a script on its \<open>KEYS\<close> and \<open>ARGV\<close>. The wrappers of \<open>RedisClient\<close> always
  pass one key and the arguments in the shape listed here; of any other shape the model
  only says that the script fails.\<close>

definition run_script :: "lua_script \<Rightarrow> string list \<Rightarrow> arg list \<Rightarrow> keyspace \<Rightarrow> (error + int list) \<times> keyspace" where
  "run_script script keys args s =
     (case (script, keys, args) of
        (RateLimitScript, [key], [ANum timeWindow, ANum max_hits, ABool ce, ABool eb]) \<Rightarrow>
          rate_limit_lua key timeWindow max_hits ce eb s
      | (TokenBucketScript, [key], [ANum limit, ANum window, ANum now]) \<Rightarrow>
          token_bucket_lua key limit window now s
      | (SlidingWindowScript, [key], [ANum limit, ANum window_start, ANum now, ANum window_ms]) \<Rightarrow>
          sliding_window_lua key limit window_start now window_ms s
      | (LeakyBucketScript, [key], [ANum capacity, leak_rate, ANum now]) \<Rightarrow>
          (case tonumber leak_rate of
             Some rate \<Rightarrow> leaky_bucket_lua key capacity rate now s
           | None \<Rightarrow> (Inl BAD_ARGUMENTS, s))
      | _ \<Rightarrow> (Inl BAD_ARGUMENTS, s))"

text \<open>The commands the client issues, and the ways a command can fail before it reaches
  the store.\<close>

datatype command =
    EVALSHA string "string list" "arg list"
  | SCRIPT_LOAD lua_script
  | EVAL lua_script "string list" "arg list"
  | ZCARD string
  | HGETALL string

datatype fault = ConnectionClosed | MaxRetriesPerRequest

fun fault_error :: "fault \<Rightarrow> error" where
  "fault_error ConnectionClosed = Error ''Connection is closed.''"
| "fault_error MaxRetriesPerRequest = Error ''Reached the max retries per request limit (which is 3).''"

text \<open>
  The store behind the connection: the keyspace, the script cache (digest to script),
  the commands issued so far, what the connection will do to the next commands
  (\<open>Some f\<close>: the command fails with \<open>f\<close> and does not run; \<open>None\<close>, or no entry: it
  runs), and what happens to the store just before each of the next commands (\<open>True\<close>:
  it loses its script cache, by a \<open>SCRIPT FLUSH\<close> of another client or by a restart;
  \<open>False\<close>, or no entry: nothing).
\<close>

record redis_server =
  keyspace :: keyspace
  script_cache :: "string \<rightharpoonup> lua_script"
  issued :: "command list"
  faults :: "fault option list"
  flushes :: "bool list"

definition NOSCRIPT :: error where
  "NOSCRIPT = Error ''NOSCRIPT No matching script. Please use EVAL.''"

text \<open>The store as the next command finds it.\<close>

definition arrive :: "redis_server \<Rightarrow> redis_server" where
  "arrive r =
     (case flushes r of
        [] \<Rightarrow> r
      | True # fs \<Rightarrow> r\<lparr>script_cache := Map.empty, flushes := fs\<rparr>
      | False # fs \<Rightarrow> r\<lparr>flushes := fs\<rparr>)"

definition issue :: "command \<Rightarrow> redis_server \<Rightarrow> error option \<times> redis_server" where
  "issue c r =
     (case faults r of
        [] \<Rightarrow> (None, (arrive r)\<lparr>issued := issued r @ [c]\<rparr>)
      | None # fs \<Rightarrow> (None, (arrive r)\<lparr>issued := issued r @ [c], faults := fs\<rparr>)
      | Some f # fs \<Rightarrow>
          (Some (fault_error f), (arrive r)\<lparr>issued := issued r @ [c], faults := fs\<rparr>))"

definition run_on :: "lua_script \<Rightarrow> string list \<Rightarrow> arg list \<Rightarrow> redis_server \<Rightarrow> (error + int list) \<times> redis_server" where
  "run_on script keys args r =
     (case run_script script keys args (keyspace r) of
        (res, s) \<Rightarrow> (res, r\<lparr>keyspace := s\<rparr>))"

definition client_evalsha :: "string \<Rightarrow> string list \<Rightarrow> arg list \<Rightarrow> redis_server \<Rightarrow> (error + int list) \<times> redis_server" where
  "client_evalsha sha keys args r =
     (case issue (EVALSHA sha keys args) r of
        (Some e, r1) \<Rightarrow> (Inl e, r1)
      | (None, r1) \<Rightarrow>
          (case script_cache r1 sha of
             None \<Rightarrow> (Inl NOSCRIPT, r1)
           | Some script \<Rightarrow> run_on script keys args r1))"

definition client_script_load :: "lua_script \<Rightarrow> redis_server \<Rightarrow> (error + string) \<times> redis_server" where
  "client_script_load script r =
     (case issue (SCRIPT_LOAD script) r of
        (Some e, r1) \<Rightarrow> (Inl e, r1)
      | (None, r1) \<Rightarrow>
          (Inr (sha1hex script),
           r1\<lparr>script_cache := (script_cache r1)(sha1hex script \<mapsto> script)\<rparr>))"

text \<open>\<open>EVAL\<close> caches the script as a side effect.\<close>

definition client_eval :: "lua_script \<Rightarrow> string list \<Rightarrow> arg list \<Rightarrow> redis_server \<Rightarrow> (error + int list) \<times> redis_server" where
  "client_eval script keys args r =
     (case issue (EVAL script keys args) r of
        (Some e, r1) \<Rightarrow> (Inl e, r1)
      | (None, r1) \<Rightarrow>
          run_on script keys args (r1\<lparr>script_cache := (script_cache r1)(sha1hex script \<mapsto> script)\<rparr>))"

definition client_zcard :: "string \<Rightarrow> redis_server \<Rightarrow> (error + int) \<times> redis_server" where
  "client_zcard key r =
     (case issue (ZCARD key) r of
        (Some e, r1) \<Rightarrow> (Inl e, r1)
      | (None, r1) \<Rightarrow> (redis_zcard key (keyspace r1), r1))"

definition client_hgetall :: "string \<Rightarrow> redis_server \<Rightarrow> (error + (string \<rightharpoonup> rat)) \<times> redis_server" where
  "client_hgetall key r =
     (case issue (HGETALL key) r of
        (Some e, r1) \<Rightarrow> (Inl e, r1)
      | (None, r1) \<Rightarrow> (redis_hgetall key (keyspace r1), r1))"

section \<open>RedisClient\<close>

text \<open>
  The class \<open>RedisClient\<close> of \<open>services/redis.ts\<close>, in the version that loads the
  scripts from files and runs them through \<open>evalWithFallback\<close>. The other version of the
  file holds the same four script texts inline and runs them with \<open>client.eval\<close> (and
  \<open>defineCommand\<close> for \<open>rateLimit\<close>): that is the runner below on a client with no digest
  cached. The wrappers, the dispatcher and \<open>getQuotaStatus\<close> are the same in both.

  The object: its table of script digests (\<open>scriptShas\<close>) and its connection.
\<close>

record redis_client =
  scriptShas :: "string \<rightharpoonup> string"
  client :: redis_server

text \<open>\<open>loadScriptShas\<close>, run on every \<open>ready\<close> event: a script that fails to load is logged
  and skipped.\<close>

fun load_each :: "(string \<times> lua_script) list \<Rightarrow> redis_client \<Rightarrow> redis_client" where
  "load_each [] c = c"
| "load_each ((name, script) # rest) c =
     (case client_script_load script (client c) of
        (Inr sha, r) \<Rightarrow> load_each rest (c\<lparr>scriptShas := (scriptShas c)(name \<mapsto> sha), client := r\<rparr>)
      | (Inl e, r) \<Rightarrow> load_each rest (c\<lparr>client := r\<rparr>))"

definition loadScriptShas :: "redis_client \<Rightarrow> redis_client" where
  "loadScriptShas c =
     load_each [(''rateLimit'', RateLimitScript), (''tokenBucket'', TokenBucketScript),
                (''slidingWindow'', SlidingWindowScript), (''leakyBucket'', LeakyBucketScript)] c"

text \<open>\<open>error.message?.includes("NOSCRIPT")\<close>.\<close>

fun starts_with :: "string \<Rightarrow> string \<Rightarrow> bool" where
  "starts_with s [] = True"
| "starts_with [] (p # ps) = False"
| "starts_with (c # cs) (p # ps) = (c = p \<and> starts_with cs ps)"

fun str_includes :: "string \<Rightarrow> string \<Rightarrow> bool" where
  "str_includes [] p = (p = [])"
| "str_includes (c # cs) p = (starts_with (c # cs) p \<or> str_includes cs p)"

fun message_includes :: "error \<Rightarrow> string \<Rightarrow> bool" where
  "message_includes (Error m) p = str_includes m p"
| "message_includes NotRational p = False"

text \<open>
  \<open>evalWithFallback\<close>. A digest is used when it is cached and not the empty string
  (\<open>if (sha)\<close>). In the NOSCRIPT branch the source is read with
  \<open>LUA_SCRIPTS[scriptName]!\<close>; \<open>scriptShas\<close> only ever receives names of \<open>LUA_SCRIPTS\<close>,
  and for a name without a source the model only says that the load fails.
\<close>

definition cached_sha :: "redis_client \<Rightarrow> string \<Rightarrow> string option" where
  "cached_sha c scriptName =
     (case scriptShas c scriptName of
        None \<Rightarrow> None
      | Some sha \<Rightarrow> if sha = [] then None else Some sha)"

definition evalWithFallback :: "string \<Rightarrow> string list \<Rightarrow> arg list \<Rightarrow> redis_client \<Rightarrow> (error + int list) \<times> redis_client" where
  "evalWithFallback scriptName keys args c =
     (case cached_sha c scriptName of
        Some sha \<Rightarrow>
          (case client_evalsha sha keys args (client c) of
             (Inr result, r1) \<Rightarrow> (Inr result, c\<lparr>client := r1\<rparr>)
           | (Inl err, r1) \<Rightarrow>
               if message_includes err ''NOSCRIPT'' then
                 (case LUA_SCRIPTS scriptName of
                    None \<Rightarrow> (Inl (Error ''ERR Error compiling script''), c\<lparr>client := r1\<rparr>)
                  | Some script \<Rightarrow>
                      (case client_script_load script r1 of
                         (Inl err2, r2) \<Rightarrow> (Inl err2, c\<lparr>client := r2\<rparr>)
                       | (Inr newSha, r2) \<Rightarrow>
                           (case client_evalsha newSha keys args r2 of
                              (res, r3) \<Rightarrow>
                                (res, c\<lparr>scriptShas := (scriptShas c)(scriptName \<mapsto> newSha),
                                        client := r3\<rparr>))))
               else (Inl err, c\<lparr>client := r1\<rparr>))
      | None \<Rightarrow>
          (case LUA_SCRIPTS scriptName of
             None \<Rightarrow> (Inl (Error (''Lua script missing for '' @ scriptName)), c)
           | Some script \<Rightarrow>
               (case client_eval script keys args (client c) of
                  (res, r1) \<Rightarrow> (res, c\<lparr>client := r1\<rparr>))))"

text \<open>The verdict envelope. A reply is decoded with \<open>result[0] === 1\<close>,
  \<open>result[1] ?? 0\<close> and \<open>result[2] ?? d\<close>.\<close>

record envelope =
  allowed :: bool
  remaining :: int
  resetAt :: int

definition at_or :: "int list \<Rightarrow> nat \<Rightarrow> int \<Rightarrow> int" where
  "at_or result i d = (if i < length result then result ! i else d)"

definition decode :: "int list \<Rightarrow> int \<Rightarrow> envelope" where
  "decode result d =
     \<lparr>allowed = (0 < length result \<and> result ! 0 = 1),
      remaining = at_or result 1 0,
      resetAt = at_or result 2 d\<rparr>"

text \<open>
  The three limiters and the dispatcher. \<open>limit\<close> and \<open>windowSeconds\<close> are the integers of
  the interface; \<open>now\<close> is the reading of \<open>Date.now()\<close> the wrapper takes, an integer
  number of milliseconds. \<open>leakyBucket\<close> computes \<open>limit / windowSeconds\<close> itself, a
  double, which is \<open>Infinity\<close>, \<open>-Infinity\<close> or \<open>NaN\<close> when \<open>windowSeconds = 0\<close>. Its test
  \<open>if (!result)\<close> never fires, a reply being an array. The default \<open>strategy = "token_bucket"\<close> of the
  dispatcher is the caller passing that string.
\<close>

definition tokenBucket :: "string \<Rightarrow> int \<Rightarrow> int \<Rightarrow> int \<Rightarrow> redis_client \<Rightarrow> (error + envelope) \<times> redis_client" where
  "tokenBucket key limit windowSeconds now c =
     (case evalWithFallback ''tokenBucket'' [key]
             [ANum (of_int limit), ANum (of_int windowSeconds), ANum (of_int now)] c of
        (Inl e, c1) \<Rightarrow> (Inl e, c1)
      | (Inr result, c1) \<Rightarrow> (Inr (decode result 0), c1))"

definition slidingWindow :: "string \<Rightarrow> int \<Rightarrow> int \<Rightarrow> int \<Rightarrow> redis_client \<Rightarrow> (error + envelope) \<times> redis_client" where
  "slidingWindow key limit windowSeconds now c =
     (let windowMs = windowSeconds * 1000;
          windowStart = now - windowMs
      in case evalWithFallback ''slidingWindow'' [key]
                [ANum (of_int limit), ANum (of_int windowStart), ANum (of_int now),
                 ANum (of_int windowMs)] c of
           (Inl e, c1) \<Rightarrow> (Inl e, c1)
         | (Inr result, c1) \<Rightarrow> (Inr (decode result (now + windowMs)), c1))"

definition leakyBucket :: "string \<Rightarrow> int \<Rightarrow> int \<Rightarrow> int \<Rightarrow> redis_client \<Rightarrow> (error + envelope) \<times> redis_client" where
  "leakyBucket key limit windowSeconds now c =
     (let leakRate = ddiv (Finite (of_int limit)) (Finite (of_int windowSeconds))
      in case evalWithFallback ''leakyBucket'' [key]
                [ANum (of_int limit), toString leakRate, ANum (of_int now)] c of
           (Inl e, c1) \<Rightarrow> (Inl e, c1)
         | (Inr result, c1) \<Rightarrow> (Inr (decode result 0), c1))"

definition checkRateLimit :: "string \<Rightarrow> int \<Rightarrow> int \<Rightarrow> string \<Rightarrow> int \<Rightarrow> redis_client \<Rightarrow> (error + envelope) \<times> redis_client" where
  "checkRateLimit key limit windowSeconds strategy now c =
     (if strategy = ''token_bucket'' then tokenBucket key limit windowSeconds now c
      else if strategy = ''sliding_window'' then slidingWindow key limit windowSeconds now c
      else if strategy = ''leaky_bucket'' then leakyBucket key limit windowSeconds now c
      else (Inl (Error (''Unknown strategy: '' @ strategy)), c))"

text \<open>\<open>fixedWindowRateLimit\<close>: the reply is \<open>{current, timeWindow}\<close>.\<close>

record fixed_window =
  current :: int
  timeWindow :: int

definition fixedWindowRateLimit :: "string \<Rightarrow> int \<Rightarrow> int \<Rightarrow> bool \<Rightarrow> bool \<Rightarrow> redis_client \<Rightarrow> (error + fixed_window) \<times> redis_client" where
  "fixedWindowRateLimit key tw max_hits continueExceeding exponentialBackoff c =
     (case evalWithFallback ''rateLimit'' [key]
             [ANum (of_int tw), ANum (of_int max_hits), ABool continueExceeding,
              ABool exponentialBackoff] c of
        (Inl e, c1) \<Rightarrow> (Inl e, c1)
      | (Inr result, c1) \<Rightarrow> (Inr \<lparr>current = at_or result 0 0, timeWindow = at_or result 1 0\<rparr>, c1))"

text \<open>\<open>getQuotaStatus\<close>: every error of the store is caught and answered with zeros.
  \<open>data.tokens || "0"\<close> reads an absent field as 0. The fields \<open>remaining\<close> and \<open>total\<close>
  of the result are \<open>quota_remaining\<close> and \<open>quota_total\<close> here.\<close>

record quota_status =
  quota_remaining :: int
  quota_total :: int

definition getQuotaStatus :: "string \<Rightarrow> string \<Rightarrow> redis_client \<Rightarrow> quota_status \<times> redis_client" where
  "getQuotaStatus key strategy c =
     (if strategy = ''sliding_window'' then
        (case client_zcard key (client c) of
           (Inr count, r1) \<Rightarrow> (\<lparr>quota_remaining = count, quota_total = count\<rparr>, c\<lparr>client := r1\<rparr>)
         | (Inl e, r1) \<Rightarrow> (\<lparr>quota_remaining = 0, quota_total = 0\<rparr>, c\<lparr>client := r1\<rparr>))
      else
        (case client_hgetall key (client c) of
           (Inr data, r1) \<Rightarrow>
             (let tokens = (case data ''tokens'' of Some t \<Rightarrow> t | None \<Rightarrow> 0)
              in (\<lparr>quota_remaining = \<lfloor>tokens\<rfloor>, quota_total = \<lfloor>tokens\<rfloor>\<rparr>, c\<lparr>client := r1\<rparr>))
         | (Inl e, r1) \<Rightarrow> (\<lparr>quota_remaining = 0, quota_total = 0\<rparr>, c\<lparr>client := r1\<rparr>)))"

section \<open>Observations, runs and invariants\<close>

subsection \<open>Reading the keyspace\<close>

text \<open>A field of the hash stored at a key (\<open>None\<close> when the key is absent or holds
  something else), and the sorted set stored at a key (empty when the key is absent or
  holds something else).\<close>

definition hash_field :: "keyspace \<Rightarrow> string \<Rightarrow> string \<Rightarrow> rat option" where
  "hash_field s key field =
     (case s key of
        Some (RHash h, t) \<Rightarrow> h field
      | _ \<Rightarrow> None)"

definition members :: "keyspace \<Rightarrow> string \<Rightarrow> (rat \<times> rat) list" where
  "members s key =
     (case s key of
        Some (RZSet z, t) \<Rightarrow> z
      | _ \<Rightarrow> [])"

text \<open>The keyspace after the eviction step of \<open>sliding-window.lua\<close> (its line 7).\<close>

definition evicted :: "string \<Rightarrow> rat \<Rightarrow> keyspace \<Rightarrow> keyspace" where
  "evicted key window_start s =
     (case redis_zremrangebyscore key 0 window_start s of
        Inr s1 \<Rightarrow> s1
      | Inl e \<Rightarrow> s)"

text \<open>What the connection will do to the next command.\<close>

definition next_fault :: "redis_server \<Rightarrow> fault option" where
  "next_fault r = (case faults r of Some f # fs \<Rightarrow> Some f | _ \<Rightarrow> None)"

subsection \<open>Records of the limiters\<close>

text \<open>The keys a sliding-window record can live at: absent, or holding a sorted set.\<close>

definition window_record :: "keyspace \<Rightarrow> string \<Rightarrow> bool" where
  "window_record s key =
     (case s key of
        None \<Rightarrow> True
      | Some (RZSet z, t) \<Rightarrow> True
      | Some (RString n, t) \<Rightarrow> False
      | Some (RHash h, t) \<Rightarrow> False)"

text \<open>A key as the leaky bucket keeps it: absent, or a hash with no field but \<open>water\<close>
  and \<open>last_leak\<close>.\<close>

definition leaky_record :: "keyspace \<Rightarrow> string \<Rightarrow> bool" where
  "leaky_record s key =
     (case s key of
        None \<Rightarrow> True
      | Some (RHash h, t) \<Rightarrow> dom h \<subseteq> {''water'', ''last_leak''}
      | Some (RString n, t) \<Rightarrow> False
      | Some (RZSet z, t) \<Rightarrow> False)"

text \<open>The refill of the token bucket in the words of the specification:
  \<open>min(limit, tokens + floor((now - last_refill) / 1000) * (limit / windowSeconds))\<close>.\<close>

definition spec_refilled :: "int \<Rightarrow> int \<Rightarrow> int \<Rightarrow> rat \<Rightarrow> rat \<Rightarrow> rat" where
  "spec_refilled limit windowSeconds now tokens last_refill =
     min (of_int limit)
       (tokens + of_int \<lfloor>(of_int now - last_refill) / 1000\<rfloor> * (of_int limit / of_int windowSeconds))"

text \<open>The same with the quotient, the product and the sum each rounded to the nearest
  double, as Lua computes them.\<close>

definition double_refilled :: "int \<Rightarrow> int \<Rightarrow> int \<Rightarrow> rat \<Rightarrow> rat \<Rightarrow> rat" where
  "double_refilled limit windowSeconds now tokens last_refill =
     min (of_int limit)
       (rounded (tokens + rounded (of_int \<lfloor>(of_int now - last_refill) / 1000\<rfloor>
                                    * rounded (of_int limit / of_int windowSeconds))))"

subsection \<open>Scripts and digests\<close>

text \<open>The errors a script can end with.\<close>

definition script_error :: "error \<Rightarrow> bool" where
  "script_error e = (e = WRONGTYPE \<or> e = NOT_AN_INTEGER \<or> e = NIL_ARITHMETIC \<or> e = BAD_ARGUMENTS \<or> e = NotRational)"

text \<open>
  The digests are in order when every digest of the store's cache names its own script
  and every digest of the client's table is the digest of the script registered under
  that name. A fresh client is in this state, and every command of the client keeps it.
\<close>

definition cache_ok :: "redis_server \<Rightarrow> bool" where
  "cache_ok r = (\<forall>sha script. script_cache r sha = Some script \<longrightarrow> sha = sha1hex script)"

definition shas_ok :: "redis_client \<Rightarrow> bool" where
  "shas_ok c =
     (\<forall>name sha. cached_sha c name = Some sha \<longrightarrow>
        (\<exists>script. LUA_SCRIPTS name = Some script \<and> sha = sha1hex script))"

definition registered :: "redis_client \<Rightarrow> bool" where
  "registered c = (cache_ok (client c) \<and> shas_ok c)"

text \<open>What a command of the runner can do to the keyspace: nothing, or one run of the
  script.\<close>

definition ran_at_most :: "lua_script \<Rightarrow> string list \<Rightarrow> arg list \<Rightarrow> redis_server \<Rightarrow> redis_server \<Rightarrow> bool" where
  "ran_at_most script keys args r r' =
     (keyspace r' = keyspace r \<or> keyspace r' = snd (run_script script keys args (keyspace r)))"

text \<open>The store loses its script cache (\<open>SCRIPT FLUSH\<close>, or a restart); the client's
  table of digests is not told.\<close>

definition script_flush :: "redis_client \<Rightarrow> redis_client" where
  "script_flush c = c\<lparr>client := (client c)\<lparr>script_cache := Map.empty\<rparr>\<rparr>"

subsection \<open>Clients\<close>

text \<open>A client that has just been constructed, on an empty store: no digest is cached
  on either side.\<close>

definition fresh_server :: redis_server where
  "fresh_server =
     \<lparr>keyspace = Map.empty, script_cache = Map.empty, issued = [], faults = [], flushes = []\<rparr>"

definition fresh_client :: redis_client where
  "fresh_client = \<lparr>scriptShas = Map.empty, client = fresh_server\<rparr>"

text \<open>A fresh client on a store whose key \<open>k\<close> holds the given value.\<close>

definition bucket_client :: "rvalue \<Rightarrow> redis_client" where
  "bucket_client v = fresh_client\<lparr>client := fresh_server\<lparr>keyspace := [''k'' \<mapsto> (v, None)]\<rparr>\<rparr>"

text \<open>Four clients to run the script runner on: one after a \<open>ready\<close> event and a flush
  of the store's cache; the same with a connection that lets one command through and
  drops the next; the same with a store that loses its cache again just before the third
  command; and one after a \<open>ready\<close> event whose key \<open>k\<close> holds a counter. Then the
  arguments of a token-bucket call with \<open>limit = 10\<close>, \<open>windowSeconds = 10\<close>, \<open>now = 0\<close>.\<close>

definition flushed_client :: redis_client where
  "flushed_client = script_flush (loadScriptShas fresh_client)"

definition dropping_client :: redis_client where
  "dropping_client =
     flushed_client\<lparr>client := (client flushed_client)\<lparr>faults := [None, Some ConnectionClosed]\<rparr>\<rparr>"

definition racing_client :: redis_client where
  "racing_client =
     flushed_client\<lparr>client := (client flushed_client)\<lparr>flushes := [False, False, True]\<rparr>\<rparr>"

definition counter_client :: redis_client where
  "counter_client =
     (loadScriptShas fresh_client)\<lparr>client := (client (loadScriptShas fresh_client))
        \<lparr>keyspace := [''k'' \<mapsto> (RString 1, None)]\<rparr>\<rparr>"

definition token_args :: "arg list" where
  "token_args = [ANum 10, ANum 10, ANum 0]"

subsection \<open>Runs\<close>

text \<open>Successive calls of \<open>checkRateLimit\<close> on one key with one policy, at the given clock
  readings; the results are listed in call order.\<close>

fun decisions :: "string \<Rightarrow> int \<Rightarrow> int \<Rightarrow> string \<Rightarrow> int list \<Rightarrow> redis_client \<Rightarrow> (error + envelope) list \<times> redis_client" where
  "decisions key limit windowSeconds strategy [] c = ([], c)"
| "decisions key limit windowSeconds strategy (now # later) c =
     (case checkRateLimit key limit windowSeconds strategy now c of
        (res, c1) \<Rightarrow>
          (case decisions key limit windowSeconds strategy later c1 of
             (rs, c2) \<Rightarrow> (res # rs, c2)))"

text \<open>\<open>n\<close> successive calls of \<open>fixedWindowRateLimit\<close> on one key with one policy.\<close>

fun fixed_window_calls :: "nat \<Rightarrow> string \<Rightarrow> int \<Rightarrow> int \<Rightarrow> bool \<Rightarrow> bool \<Rightarrow> redis_client \<Rightarrow> (error + fixed_window) list \<times> redis_client" where
  "fixed_window_calls 0 key window max_hits ce eb c = ([], c)"
| "fixed_window_calls (Suc n) key window max_hits ce eb c =
     (case fixedWindowRateLimit key window max_hits ce eb c of
        (res, c1) \<Rightarrow>
          (case fixed_window_calls n key window max_hits ce eb c1 of
             (rs, c2) \<Rightarrow> (res # rs, c2)))"

text \<open>Successive calls of \<open>leakyBucket\<close> on one key, each with its own \<open>limit\<close>,
  \<open>windowSeconds\<close> and clock reading.\<close>

fun leaky_calls :: "string \<Rightarrow> (int \<times> int \<times> int) list \<Rightarrow> redis_client \<Rightarrow> redis_client" where
  "leaky_calls key [] c = c"
| "leaky_calls key ((limit, windowSeconds, now) # rest) c =
     leaky_calls key rest (snd (leakyBucket key limit windowSeconds now c))"

section \<open>Evaluation lemmas\<close>

lemma floor_rat_numeral: "\<lfloor>numeral a / numeral b :: rat\<rfloor> = numeral a div numeral b"
  by (metis floor_divide_of_int_eq of_int_numeral)

lemma floor_rat_one: "\<lfloor>1 / numeral b :: rat\<rfloor> = 1 div numeral b"
  by (metis floor_divide_of_int_eq of_int_1 of_int_numeral)

lemma floor_rat_minus_numeral: "\<lfloor>- (numeral a / numeral b) :: rat\<rfloor> = - numeral a div numeral b"
  by (metis divide_minus_left floor_divide_of_int_eq of_int_neg_numeral of_int_numeral)

lemma floor_rat_minus_one: "\<lfloor>- (1 / numeral b) :: rat\<rfloor> = - 1 div numeral b"
  by (metis divide_minus_left floor_divide_of_int_eq of_int_minus of_int_1 of_int_numeral)

lemma ceiling_rat_numeral: "\<lceil>numeral a / numeral b :: rat\<rceil> = - (- numeral a div numeral b)"
  by (simp add: ceiling_def floor_rat_minus_numeral)

lemma ceiling_rat_one: "\<lceil>1 / numeral b :: rat\<rceil> = - (- 1 div numeral b)"
  by (simp add: ceiling_def floor_rat_minus_one)

lemma ceiling_rat_minus_one: "\<lceil>- 1 :: rat\<rceil> = - 1"
  by (simp add: ceiling_def)

lemmas rat_eval = floor_rat_numeral floor_rat_one floor_rat_minus_numeral floor_rat_minus_one
  ceiling_rat_numeral ceiling_rat_one ceiling_rat_minus_one

lemmas command_defs = redis_incr_def redis_pexpire_def redis_expire_def redis_pttl_def
  redis_hmget_def redis_hmset_def redis_hgetall_def redis_zremrangebyscore_def in_range_def
  redis_zcard_def redis_zadd_def is_integer_def lua_to_integer_def lua_reply_def

lemmas script_defs = token_refill_def token_take_def token_bucket_lua_def leak_def pour_def
  leaky_bucket_lua_def sliding_window_lua_def MAX_SAFE_INTEGER_def rate_limit_lua_def
  call_hmset_def call_expire_def lua_return_def dsub_def lua_max_def lua_min_def
  signed_infinity_def

lemmas client_defs = LUA_SCRIPTS_def run_script_def arrive_def issue_def run_on_def NOSCRIPT_def
  client_evalsha_def client_script_load_def client_eval_def client_zcard_def client_hgetall_def
  cached_sha_def evalWithFallback_def at_or_def decode_def tokenBucket_def slidingWindow_def
  leakyBucket_def checkRateLimit_def fixedWindowRateLimit_def getQuotaStatus_def
  fresh_server_def fresh_client_def

subsection \<open>Rounding\<close>

lemma round_even_of_int [simp]: "round_even (of_int n) = n"
  by (simp add: round_even_def)

lemma round_even_error: "\<bar>of_int (round_even y) - y\<bar> \<le> 1 / 2"
  unfolding round_even_def Let_def
  by (auto simp: abs_if not_less) linarith+

lemma round_even_ge: "of_int n \<le> y \<Longrightarrow> n \<le> round_even y"
  unfolding round_even_def Let_def
  by (auto simp: le_floor_iff) linarith+

lemma round_even_le: "y \<le> of_int n \<Longrightarrow> round_even y \<le> n"
  unfolding round_even_def Let_def
  by (auto simp: not_less) (linarith | simp add: floor_le_iff)+

lemma search_exponent_Some:
  assumes "search_exponent n e0 x = Some e"
  shows "e0 \<le> e \<and> e < e0 + int n \<and> \<bar>x\<bar> < 2 powi (e + 53)
         \<and> (\<forall>e'. e0 \<le> e' \<and> e' < e \<longrightarrow> 2 powi (e' + 53) \<le> \<bar>x\<bar>)"
  using assms
proof (induction n arbitrary: e0)
  case 0
  then show ?case by simp
next
  case (Suc n)
  show ?case
  proof (cases "\<bar>x\<bar> < 2 powi (e0 + 53)")
    case True
    with Suc.prems show ?thesis by auto
  next
    case False
    with Suc.prems have "search_exponent n (e0 + 1) x = Some e" by simp
    from Suc.IH [OF this] False show ?thesis
      by (auto simp: not_less) (metis add.commute less_le zless_imp_add1_zle)
  qed
qed

lemma search_exponent_None:
  assumes "search_exponent n e0 x = None" and "e0 \<le> e" and "e < e0 + int n"
  shows "2 powi (e + 53) \<le> \<bar>x\<bar>"
  using assms
proof (induction n arbitrary: e0)
  case 0
  then show ?case by simp
next
  case (Suc n)
  from Suc.prems(1) have f: "\<not> \<bar>x\<bar> < 2 powi (e0 + 53)" and r: "search_exponent n (e0 + 1) x = None"
    by (simp_all split: if_splits)
  show ?case
  proof (cases "e = e0")
    case True
    with f show ?thesis by simp
  next
    case False
    with Suc.prems(2,3) have "e0 + 1 \<le> e" "e < e0 + 1 + int n" by simp_all
    with r show ?thesis by (rule Suc.IH)
  qed
qed

lemma ulp_exponent_Some:
  assumes "ulp_exponent x = Some e"
  shows "- 1074 \<le> e" and "e \<le> 971" and "\<bar>x\<bar> < 2 powi (e + 53)"
    and "\<And>e'. - 1074 \<le> e' \<Longrightarrow> e' < e \<Longrightarrow> 2 powi (e' + 53) \<le> \<bar>x\<bar>"
  using search_exponent_Some [OF assms [unfolded ulp_exponent_def]] by simp_all

lemma ulp_exponent_None:
  assumes "ulp_exponent x = None"
  shows "2 ^ 1024 \<le> \<bar>x\<bar>"
  using search_exponent_None [OF assms [unfolded ulp_exponent_def], of 971] by simp

lemma ulp_exponent_exists:
  assumes "\<bar>x\<bar> < 2 powi (e0 + 53)" and "- 1074 \<le> e0" and "e0 \<le> 971"
  obtains e where "ulp_exponent x = Some e" and "e \<le> e0"
proof (cases "ulp_exponent x")
  case None
  from search_exponent_None [OF None [unfolded ulp_exponent_def], of e0] assms show ?thesis
    by simp
next
  case (Some e)
  have "e \<le> e0"
  proof (rule ccontr)
    assume "\<not> e \<le> e0"
    then have "e0 < e" by simp
    from ulp_exponent_Some(4) [OF Some assms(2) this] assms(1) show False
      by simp
  qed
  with Some that show ?thesis by blast
qed

lemma ulp_exponent_eq:
  assumes "- 1074 \<le> e" and "e \<le> 971" and "\<bar>x\<bar> < 2 powi (e + 53)"
    and "e = - 1074 \<or> 2 powi (e + 52) \<le> \<bar>x\<bar>"
  shows "ulp_exponent x = Some e"
proof -
  from assms(3,1,2) obtain e' where e': "ulp_exponent x = Some e'" and le: "e' \<le> e"
    by (rule ulp_exponent_exists)
  have "e' = e"
  proof (rule ccontr)
    assume "e' \<noteq> e"
    with le have lt: "e' < e" by simp
    with ulp_exponent_Some(1) [OF e'] have "e \<noteq> - 1074" by simp
    with assms(4) have "2 powi (e + 52) \<le> \<bar>x\<bar>" by simp
    moreover have "(2 :: rat) powi (e' + 53) \<le> 2 powi (e + 52)"
      using lt by (intro power_int_increasing) simp_all
    ultimately show False
      using ulp_exponent_Some(3) [OF e'] by simp
  qed
  with e' show ?thesis by simp
qed


lemma two_powi_pos [simp]: "(0 :: rat) < 2 powi e"
  by (simp add: zero_less_power_int)

lemma two_powi_split: "(2 :: rat) powi a = 2 powi (a - b) * 2 powi b"
  using power_int_add [of "2 :: rat" "a - b" b] by simp

lemma rounded_Some:
  assumes "ulp_exponent x = Some e"
  shows "rounded x = of_int (round_even (x / 2 powi e)) * 2 powi e"
  using assms by (simp add: rounded_def)

text \<open>A multiple of \<open>2^e0\<close> below \<open>2^(e0 + 53)\<close> is a double.\<close>

lemma rounded_exact:
  assumes "- 1074 \<le> e0" and "e0 \<le> 971" and "\<bar>x\<bar> < 2 powi (e0 + 53)"
    and "x = of_int m * 2 powi e0"
  shows "rounded x = x"
proof -
  from assms(3,1,2) obtain e where e: "ulp_exponent x = Some e" and le: "e \<le> e0"
    by (rule ulp_exponent_exists)
  have "(2 :: rat) powi e0 = 2 ^ nat (e0 - e) * 2 powi e"
    using two_powi_split [of e0 e] le by (simp add: power_int_def)
  then have x: "x = of_int (m * 2 ^ nat (e0 - e)) * 2 powi e"
    using assms(4) by simp
  have "x / 2 powi e = of_int (m * 2 ^ nat (e0 - e))"
    by (subst x) simp
  then have "round_even (x / 2 powi e) = m * 2 ^ nat (e0 - e)"
    by (simp only: round_even_of_int)
  then have "rounded x = of_int (m * 2 ^ nat (e0 - e)) * 2 powi e"
    by (simp only: rounded_Some [OF e])
  with x show ?thesis
    by simp
qed

lemma rounded_of_int:
  assumes "\<bar>n\<bar> < 2 ^ 53"
  shows "rounded (of_int n) = of_int n"
proof -
  have "\<bar>of_int n :: rat\<bar> < 2 powi (0 + 53)"
    using assms by (simp flip: of_int_abs add: of_int_less_numeral_power_cancel_iff)
  then show ?thesis
    by (rule rounded_exact [where m = n, rotated 2]) simp_all
qed

lemma rounded_dyadic:
  assumes "\<bar>m\<bar> < 2 ^ 53" and "k \<le> 1074"
  shows "rounded (of_int m / 2 ^ k) = of_int m / 2 ^ k"
proof -
  have p: "(2 :: rat) powi (- int k) = 1 / 2 ^ k"
    by (simp add: power_int_def field_simps)
  have "\<bar>of_int m :: rat\<bar> < 2 ^ 53"
    using assms(1) by (simp flip: of_int_abs add: of_int_less_numeral_power_cancel_iff)
  then have "\<bar>of_int m :: rat\<bar> * 2 powi (- int k) < 2 powi 53 * 2 powi (- int k)"
    by simp
  also have "(2 :: rat) powi 53 * 2 powi (- int k) = 2 powi (- int k + 53)"
    using power_int_add [of "2 :: rat" 53 "- int k"] by (simp add: add.commute)
  finally have lt: "\<bar>of_int m / 2 ^ k :: rat\<bar> < 2 powi (- int k + 53)"
    by (simp add: p abs_mult)
  have r: "- 1074 \<le> - int k" "- int k \<le> 971"
    using assms(2) by simp_all
  have "of_int m / 2 ^ k = (of_int m :: rat) * 2 powi (- int k)"
    by (simp only: p) simp
  with r lt show ?thesis
    by (rule rounded_exact)
qed

lemma rounded_bound:
  assumes "- 1074 \<le> e0" and "e0 \<le> 971" and "\<bar>x\<bar> < 2 powi (e0 + 53)"
  shows "\<bar>rounded x\<bar> \<le> 2 powi (e0 + 53)"
proof -
  from assms(3,1,2) obtain e where e: "ulp_exponent x = Some e" and le: "e \<le> e0"
    by (rule ulp_exponent_exists)
  define y where "y = x / 2 powi e"
  have s: "(2 :: rat) powi (e + 53) = 2 ^ 53 * 2 powi e"
    using power_int_add [of "2 :: rat" 53 e] by (simp add: add.commute)
  have "\<bar>x\<bar> < 2 ^ 53 * 2 powi e"
    using ulp_exponent_Some(3) [OF e] s by simp
  then have y: "\<bar>y\<bar> < 2 ^ 53"
    by (simp add: y_def abs_divide field_simps)
  have "y \<le> of_int (2 ^ 53)" and "of_int (- (2 ^ 53)) \<le> y"
    using y by simp_all
  then have "round_even y \<le> 2 ^ 53" and "- (2 ^ 53) \<le> round_even y"
    by (simp_all only: round_even_le round_even_ge)
  then have "\<bar>round_even y\<bar> \<le> 2 ^ 53"
    by simp
  then have "\<bar>of_int (round_even y) :: rat\<bar> \<le> 2 ^ 53"
    by (simp flip: of_int_abs add: of_int_le_numeral_power_cancel_iff)
  then have "\<bar>of_int (round_even y) :: rat\<bar> * 2 powi e \<le> 2 ^ 53 * 2 powi e"
    by simp
  then have "\<bar>rounded x\<bar> \<le> 2 powi (e + 53)"
    by (simp add: rounded_Some [OF e] abs_mult s y_def)
  also have "(2 :: rat) powi (e + 53) \<le> 2 powi (e0 + 53)"
    using le by (intro power_int_increasing) simp_all
  finally show ?thesis .
qed

lemma rounded_error:
  assumes "- 1074 \<le> e0" and "e0 \<le> 971" and "\<bar>x\<bar> < 2 powi (e0 + 53)"
  shows "\<bar>rounded x - x\<bar> \<le> 2 powi (e0 - 1)"
proof -
  from assms(3,1,2) obtain e where e: "ulp_exponent x = Some e" and le: "e \<le> e0"
    by (rule ulp_exponent_exists)
  let ?y = "x / 2 powi e"
  have "rounded x - x = (of_int (round_even ?y) - ?y) * 2 powi e"
    by (simp add: rounded_Some [OF e] algebra_simps)
  then have "\<bar>rounded x - x\<bar> = \<bar>of_int (round_even ?y) - ?y\<bar> * 2 powi e"
    by (simp add: abs_mult)
  also have "\<dots> \<le> 1 / 2 * 2 powi e"
    using round_even_error [of ?y] by (intro mult_right_mono) simp_all
  also have "1 / 2 * (2 :: rat) powi e = 2 powi (e - 1)"
    using power_int_add [of "2 :: rat" e "- 1"] by simp
  also have "(2 :: rat) powi (e - 1) \<le> 2 powi (e0 - 1)"
    using le by (intro power_int_increasing) simp_all
  finally show ?thesis .
qed


lemma rounded_ge_int:
  assumes "of_int n \<le> x" and "\<bar>n\<bar> < 2 ^ 53"
  shows "of_int n \<le> rounded x"
proof (cases "ulp_exponent x")
  case None
  with assms(1) show ?thesis by (simp add: rounded_def)
next
  case (Some e)
  define y where "y = x / 2 powi e"
  have r: "rounded x = of_int (round_even y) * 2 powi e"
    by (simp add: rounded_Some [OF Some] y_def)
  show ?thesis
  proof (cases "e \<le> 0")
    case True
    define N where "N = n * 2 ^ nat (- e)"
    have "(2 :: rat) ^ nat (- e) * 2 powi e = 1"
      using True power_int_add [of "2 :: rat" "- e" e] by (simp add: power_int_def)
    then have n: "(of_int N :: rat) * 2 powi e = of_int n"
      by (simp add: N_def mult.assoc)
    then have "(of_int N :: rat) = of_int n / 2 powi e"
      by (simp add: field_simps)
    also have "\<dots> \<le> y"
      unfolding y_def using assms(1) by (intro divide_right_mono) simp_all
    finally have "N \<le> round_even y"
      by (rule round_even_ge)
    then have "(of_int N :: rat) * 2 powi e \<le> of_int (round_even y) * 2 powi e"
      by (intro mult_right_mono) simp_all
    with n r show ?thesis by simp
  next
    case False
    then have e1: "- 1074 \<le> e - 1" "e - 1 < e" by simp_all
    from ulp_exponent_Some(4) [OF Some e1] have big: "2 powi (e + 52) \<le> \<bar>x\<bar>"
      by (simp add: algebra_simps)
    have p: "(2 :: rat) ^ 53 \<le> 2 powi (e + 52)"
      using False power_int_increasing [of 53 "e + 52" "2 :: rat"] by simp
    have nb: "(of_int n :: rat) < 2 ^ 53" "- (2 ^ 53) < (of_int n :: rat)"
      using assms(2) by (simp_all add: abs_less_iff of_int_less_numeral_power_cancel_iff
          numeral_power_less_of_int_cancel_iff flip: of_int_minus)
    have "0 \<le> x"
    proof (rule ccontr)
      assume "\<not> 0 \<le> x"
      with big p have "x \<le> - (2 ^ 53)" by simp
      with assms(1) nb(2) show False by simp
    qed
    with big have "2 powi (e + 52) \<le> x" by simp
    then have "2 powi (e + 52) / 2 powi e \<le> y"
      unfolding y_def by (intro divide_right_mono) simp_all
    moreover have "(2 :: rat) powi (e + 52) / 2 powi e = of_int (2 ^ 52)"
      using power_int_add [of "2 :: rat" e 52] by simp
    ultimately have "of_int (2 ^ 52) \<le> y" by simp
    then have "2 ^ 52 \<le> round_even y"
      by (rule round_even_ge)
    then have "(of_int (2 ^ 52) :: rat) \<le> of_int (round_even y)"
      by (simp only: of_int_le_iff)
    then have a: "(of_int (2 ^ 52) :: rat) * 2 powi e \<le> of_int (round_even y) * 2 powi e"
      by (intro mult_right_mono) simp_all
    have b: "(2 :: rat) powi (e + 52) = of_int (2 ^ 52) * 2 powi e"
      using power_int_add [of "2 :: rat" e 52] by simp
    have "2 powi (e + 52) \<le> rounded x"
      unfolding r b by (rule a)
    with p nb(1) show ?thesis by simp
  qed
qed

lemma round_even_minus: "round_even (- y) = - round_even y"
proof (cases "y = of_int \<lfloor>y\<rfloor>")
  case True
  then obtain k where "y = of_int k" ..
  then show ?thesis
    by (simp flip: of_int_minus)
next
  case False
  then have f: "\<lfloor>- y\<rfloor> = - \<lfloor>y\<rfloor> - 1"
    by (metis ceiling_altdef ceiling_def add_diff_cancel_right' minus_diff_eq neg_equal_iff_equal uminus_add_conv_diff)
  show ?thesis
    unfolding round_even_def Let_def f
    by (auto simp: algebra_simps)
qed

lemma ulp_exponent_minus: "ulp_exponent (- x) = ulp_exponent x"
proof -
  have "search_exponent n e (- x) = search_exponent n e x" for n e
    by (induction n arbitrary: e) simp_all
  then show ?thesis
    by (simp add: ulp_exponent_def)
qed

lemma rounded_minus: "rounded (- x) = - rounded x"
  by (simp add: rounded_def ulp_exponent_minus round_even_minus split: option.splits)

lemma rounded_le_int:
  assumes "x \<le> of_int n" and "\<bar>n\<bar> < 2 ^ 53"
  shows "rounded x \<le> of_int n"
  using rounded_ge_int [of "- n" "- x"] assms by (simp add: rounded_minus)

lemma rounded_eval:
  assumes "- 1074 \<le> e" and "e \<le> 971" and "\<bar>x\<bar> < 2 powi (e + 53)"
    and "e = - 1074 \<or> 2 powi (e + 52) \<le> \<bar>x\<bar>"
  shows "rounded x = of_int (round_even (x / 2 powi e)) * 2 powi e"
  using assms by (intro rounded_Some ulp_exponent_eq)

lemma rounded_small:
  assumes "\<bar>x\<bar> < 2 ^ k" and "k \<le> 1023"
  shows "\<bar>rounded x\<bar> \<le> 2 ^ k" and "round_double x = Finite (rounded x)"
proof -
  have "\<bar>x\<bar> < 2 powi (int k - 53 + 53)"
    using assms(1) by simp
  moreover have "- 1074 \<le> int k - 53" "int k - 53 \<le> 971"
    using assms(2) by simp_all
  ultimately have "\<bar>rounded x\<bar> \<le> 2 powi (int k - 53 + 53)"
    by (intro rounded_bound)
  then show b: "\<bar>rounded x\<bar> \<le> 2 ^ k"
    by simp
  have "(2 :: rat) ^ k < 2 ^ 1024"
    using assms(2) by (intro power_strict_increasing) simp_all
  with b show "round_double x = Finite (rounded x)"
    by (simp add: round_double_def Let_def)
qed

lemma round_double_of_int:
  assumes "\<bar>n\<bar> < 2 ^ 53"
  shows "round_double (of_int n) = Finite (of_int n)"
proof -
  have "\<bar>of_int n :: rat\<bar> < 2 ^ 53"
    using assms by (simp flip: of_int_abs add: of_int_less_numeral_power_cancel_iff)
  from rounded_small(2) [OF this] rounded_of_int [OF assms] show ?thesis
    by simp
qed


text \<open>Rounding at the numbers of the scenarios.\<close>

lemma round_double_numeral:
  "numeral n < (2 :: int) ^ 53 \<Longrightarrow> round_double (numeral n) = Finite (numeral n)"
  using round_double_of_int [of "numeral n"] by simp

lemma round_double_neg_numeral:
  "numeral n < (2 :: int) ^ 53 \<Longrightarrow> round_double (- numeral n) = Finite (- numeral n)"
  using round_double_of_int [of "- numeral n"] by simp

lemma round_double_zero: "round_double 0 = Finite 0"
  using round_double_of_int [of 0] by simp

lemma round_double_one: "round_double 1 = Finite 1"
  using round_double_of_int [of 1] by simp

lemma round_double_neg_one: "round_double (- 1) = Finite (- 1)"
  using round_double_of_int [of "- 1"] by simp

lemma round_double_dyadic:
  assumes "\<bar>m\<bar> < 2 ^ 53" and "k \<le> 1023"
  shows "round_double (of_int m / 2 ^ k) = Finite (of_int m / 2 ^ k)"
proof -
  have "\<bar>of_int m :: rat\<bar> < 2 ^ 53"
    using assms(1) by (simp flip: of_int_abs add: of_int_less_numeral_power_cancel_iff)
  moreover have "\<bar>of_int m / 2 ^ k :: rat\<bar> \<le> \<bar>of_int m\<bar>"
    by (simp add: abs_divide divide_le_eq_1_pos mult_le_cancel_left1 field_simps)
  ultimately have "\<bar>of_int m / 2 ^ k :: rat\<bar> < 2 ^ 53"
    by simp
  from rounded_small(2) [OF this] rounded_dyadic [OF assms(1), of k] assms(2) show ?thesis
    by simp
qed

lemma round_double_half:
  "numeral n < (2 :: int) ^ 53 \<Longrightarrow> round_double (numeral n / 2) = Finite (numeral n / 2)"
  using round_double_dyadic [of "numeral n" 1] by simp

lemma round_double_neg_half:
  "numeral n < (2 :: int) ^ 53 \<Longrightarrow> round_double (- (numeral n / 2)) = Finite (- (numeral n / 2))"
  using round_double_dyadic [of "- numeral n" 1] by simp

lemma round_double_one_half: "round_double (1 / 2) = Finite (1 / 2)"
  using round_double_dyadic [of 1 1] by simp

lemma round_double_neg_one_half: "round_double (- (1 / 2)) = Finite (- (1 / 2))"
  using round_double_dyadic [of "- 1" 1] by simp

lemmas double_eval = round_double_numeral round_double_neg_numeral round_double_zero
  round_double_one round_double_neg_one round_double_half round_double_neg_half
  round_double_one_half round_double_neg_one_half

lemma rounded_numeral: "numeral n < (2 :: int) ^ 53 \<Longrightarrow> rounded (numeral n) = numeral n"
  using rounded_of_int [of "numeral n"] by simp

lemma rounded_zero: "rounded 0 = 0"
  using rounded_of_int [of 0] by simp

lemma rounded_one: "rounded 1 = 1"
  using rounded_of_int [of 1] by simp

lemma two_powi_neg_numeral: "(2 :: rat) powi (- numeral n) = 1 / 2 ^ numeral n"
  by (simp add: power_int_minus field_simps)

subsection \<open>Operations on finite doubles\<close>

lemma of_int_abs_less: "\<bar>n\<bar> < 2 ^ k \<Longrightarrow> \<bar>of_int n :: rat\<bar> < 2 ^ k"
  by (simp flip: of_int_abs add: of_int_less_numeral_power_cancel_iff)

lemma dadd_Finite:
  assumes "\<bar>x + y\<bar> < 2 ^ k" and "k \<le> 1023"
  shows "dadd (Finite x) (Finite y) = Finite (rounded (x + y))"
  using rounded_small(2) [OF assms] by simp

lemma dsub_Finite:
  assumes "\<bar>x - y\<bar> < 2 ^ k" and "k \<le> 1023"
  shows "dsub (Finite x) (Finite y) = Finite (rounded (x - y))"
  using rounded_small(2) [OF assms] by (simp add: dsub_def)

lemma dmul_Finite:
  assumes "\<bar>x * y\<bar> < 2 ^ k" and "k \<le> 1023"
  shows "dmul (Finite x) (Finite y) = Finite (rounded (x * y))"
  using rounded_small(2) [OF assms] by simp

lemma ddiv_Finite:
  assumes "\<bar>x / y\<bar> < 2 ^ k" and "k \<le> 1023" and "y \<noteq> 0"
  shows "ddiv (Finite x) (Finite y) = Finite (rounded (x / y))"
  using rounded_small(2) [OF assms(1,2)] assms(3) by simp

lemma dadd_int:
  assumes "\<bar>a + b\<bar> < 2 ^ 53"
  shows "dadd (Finite (of_int a)) (Finite (of_int b)) = Finite (of_int (a + b))"
  using round_double_of_int [OF assms] by simp

lemma dsub_int:
  assumes "\<bar>a - b\<bar> < 2 ^ 53"
  shows "dsub (Finite (of_int a)) (Finite (of_int b)) = Finite (of_int (a - b))"
  using round_double_of_int [OF assms] by (simp add: dsub_def)

lemma dmul_int:
  assumes "\<bar>a * b\<bar> < 2 ^ 53"
  shows "dmul (Finite (of_int a)) (Finite (of_int b)) = Finite (of_int (a * b))"
  using round_double_of_int [OF assms] by simp

lemma floor_rounded_div:
  assumes "0 \<le> n" and "n < 2 ^ 53"
  shows "\<lfloor>rounded (of_int n / 1000)\<rfloor> = n div 1000"
proof -
  define x :: rat where "x = of_int n / 1000"
  define q where "q = n div 1000"
  define r where "r = n mod 1000"
  have n: "n = q * 1000 + r"
    by (simp add: q_def r_def)
  have r: "0 \<le> r" "r < 1000"
    by (simp_all add: r_def)
  have q: "0 \<le> q" "q < 2 ^ 53"
    using assms n r by linarith+
  have x: "x = of_int q + of_int r / 1000"
    by (simp add: x_def n)
  have "(of_int n :: rat) < 2 ^ 53"
    using assms(2) by (simp add: of_int_less_numeral_power_cancel_iff)
  then have "x < 2 ^ 44"
    by (simp add: x_def)
  moreover have "0 \<le> x"
    using assms(1) by (simp add: x_def)
  ultimately have "\<bar>x\<bar> < 2 powi (- 9 + 53)"
    by simp
  with rounded_error [of "- 9" x] have err: "\<bar>rounded x - x\<bar> \<le> 1 / 1024"
    by (simp add: power_int_minus field_simps)
  have "\<lfloor>rounded x\<rfloor> = q"
  proof (cases "r = 0")
    case True
    with x have "x = of_int q" by simp
    moreover have "\<bar>q\<bar> < 2 ^ 53" using q by simp
    ultimately show ?thesis
      by (simp add: rounded_of_int)
  next
    case False
    with r have "1 \<le> r" "r \<le> 999" by simp_all
    then have "(1 :: rat) \<le> of_int r" "(of_int r :: rat) \<le> 999"
      by (simp_all add: of_int_le_iff [symmetric] del: of_int_le_iff)
    then have "of_int q + 1 / 1000 \<le> x" "x \<le> of_int q + 999 / 1000"
      by (simp_all add: x)
    with err have "of_int q \<le> rounded x" "rounded x < of_int q + 1"
      by linarith+
    then show ?thesis
      by (rule floor_unique)
  qed
  then show ?thesis
    by (simp add: x_def q_def)
qed


lemma abs_mult_less:
  fixes a b :: rat
  assumes "\<bar>a\<bar> \<le> 2 ^ m" and "\<bar>b\<bar> \<le> 2 ^ n"
  shows "\<bar>a * b\<bar> < 2 ^ (m + n + 1)"
proof -
  have "\<bar>a * b\<bar> \<le> 2 ^ m * 2 ^ n"
    unfolding abs_mult using assms by (intro mult_mono) simp_all
  also have "\<dots> < (2 :: rat) ^ (m + n + 1)"
    by (simp add: power_add)
  finally show ?thesis .
qed

lemma abs_add_less:
  fixes a b :: rat
  assumes "\<bar>a\<bar> \<le> 2 ^ m" and "\<bar>b\<bar> \<le> 2 ^ n" and "m < n"
  shows "\<bar>a + b\<bar> < 2 ^ (n + 1)"
proof -
  have "(2 :: rat) ^ m < 2 ^ n"
    using assms(3) by (intro power_strict_increasing) simp_all
  with assms(1,2) have "\<bar>a\<bar> + \<bar>b\<bar> < 2 ^ n + 2 ^ n"
    by linarith
  then show ?thesis
    using abs_triangle_ineq [of a b] by simp
qed

lemma abs_div_int_le:
  assumes "0 < w"
  shows "\<bar>x / of_int w :: rat\<bar> \<le> \<bar>x\<bar>"
proof -
  have "(1 :: rat) \<le> of_int w"
    using assms by simp
  then have "\<bar>x\<bar> / of_int w \<le> \<bar>x\<bar> / 1"
    by (intro divide_left_mono) simp_all
  then show ?thesis
    using assms by (simp add: abs_divide)
qed

subsection \<open>Integers\<close>

lemma is_integer_of_int: "is_integer (of_int n)"
  by (simp add: is_integer_def)

lemma lua_to_integer_of_int: "lua_to_integer (of_int n) = n"
  by (simp add: lua_to_integer_def)

section \<open>The token bucket\<close>

text \<open>The refill of \<open>token-bucket.lua\<close> on a record that exists.\<close>

lemma token_refill_existing:
  fixes limit windowSeconds now last_refill :: int
  assumes "0 < limit" and "limit < 2 ^ 53" and "0 < windowSeconds"
    and "0 \<le> last_refill" and "last_refill \<le> now" and "now < 2 ^ 53"
    and "\<bar>tokens\<bar> \<le> 2 ^ 53"
  shows "token_refill (of_int limit) (of_int windowSeconds) (of_int now) (Some tokens)
           (Some (of_int last_refill)) =
         Inr (Finite (double_refilled limit windowSeconds now tokens (of_int last_refill)),
              Finite (of_int now))"
proof -
  define k where "k = (now - last_refill) div 1000"
  define rate where "rate = rounded (of_int limit / of_int windowSeconds)"
  define prod where "prod = rounded (of_int k * rate)"
  have e: "0 \<le> now - last_refill" "now - last_refill < 2 ^ 53"
    using assms(4-6) by simp_all
  have tp: "dsub (Finite (of_int now)) (Finite (of_int last_refill)) =
      Finite (of_int (now - last_refill))"
    using e by (intro dsub_int) simp
  have "\<bar>of_int (now - last_refill) / 1000 :: rat\<bar> \<le> \<bar>of_int (now - last_refill)\<bar>"
    by (simp add: abs_divide field_simps)
  also have "\<dots> < 2 ^ 53"
    using e by (intro of_int_abs_less) simp
  finally have q: "ddiv (Finite (of_int (now - last_refill))) (Finite 1000) =
      Finite (rounded (of_int (now - last_refill) / 1000))"
    by (intro ddiv_Finite [where k = 53]) simp_all
  have fl: "\<lfloor>rounded (of_int (now - last_refill) / 1000)\<rfloor> = k"
    unfolding k_def using e by (rule floor_rounded_div)
  have kb: "0 \<le> k" "k < 2 ^ 53"
    using e by (simp_all add: k_def pos_imp_zdiv_nonneg_iff)
  have "\<bar>of_int limit / of_int windowSeconds :: rat\<bar> \<le> \<bar>of_int limit\<bar>"
    using assms(3) by (rule abs_div_int_le)
  also have "\<dots> < 2 ^ 53"
    using assms(1,2) by (intro of_int_abs_less) simp
  finally have rb: "\<bar>of_int limit / of_int windowSeconds :: rat\<bar> < 2 ^ 53" .
  have r: "ddiv (Finite (of_int limit)) (Finite (of_int windowSeconds)) = Finite rate"
    unfolding rate_def using rb assms(3) by (intro ddiv_Finite [where k = 53]) simp_all
  have rate: "\<bar>rate\<bar> \<le> 2 ^ 53"
    unfolding rate_def using rb by (intro rounded_small(1)) simp_all
  have "\<bar>of_int k :: rat\<bar> \<le> 2 ^ 53"
    using kb of_int_abs_less [of k 53] by simp
  from abs_mult_less [OF this rate] have pb: "\<bar>of_int k * rate\<bar> < 2 ^ 107"
    by simp
  then have p: "dmul (Finite (of_int k)) (Finite rate) = Finite prod"
    unfolding prod_def by (intro dmul_Finite [where k = 107]) simp_all
  have prod: "\<bar>prod\<bar> \<le> 2 ^ 107"
    unfolding prod_def using pb by (intro rounded_small(1)) simp_all
  from abs_add_less [OF assms(7) prod] have sb: "\<bar>tokens + prod\<bar> < 2 ^ 108"
    by simp
  then have s: "dadd (Finite tokens) (Finite prod) = Finite (rounded (tokens + prod))"
    by (intro dadd_Finite [where k = 108]) simp_all
  have fs: "\<lfloor>(of_int now - of_int last_refill) / (1000 :: rat)\<rfloor> = k"
    using floor_divide_of_int_eq [of "now - last_refill" 1000, where ?'a = rat]
    by (simp add: k_def)
  have dr: "double_refilled limit windowSeconds now tokens (of_int last_refill) =
      min (of_int limit) (rounded (tokens + prod))"
    by (simp only: double_refilled_def fs prod_def rate_def)
  have m: "lua_min (Finite (of_int limit)) (Finite (rounded (tokens + prod))) =
      Finite (min (of_int limit) (rounded (tokens + prod)))"
    by (simp add: lua_min_def min_def)
  show ?thesis
    by (simp only: token_refill_def Let_def option.case tp q dfloor.simps fl r p s m dr)
qed


text \<open>One run of \<open>token-bucket.lua\<close> after its refill, with the arguments the wrapper
  passes: the admission, the two writes and the reply.\<close>

lemma token_bucket_run:
  fixes limit windowSeconds now :: int
  assumes "limit < 2 ^ 53" and "0 < windowSeconds" and "0 \<le> now"
    and "now + windowSeconds * 1000 < 2 ^ 53"
    and "redis_hmget key ''tokens'' ''last_refill'' s = Inr (b1, b2)"
    and "token_refill (of_int limit) (of_int windowSeconds) (of_int now) b1 b2 =
           Inr (Finite refilled, Finite (of_int now))"
    and "refilled \<le> of_int limit"
  defines "tokens' \<equiv> (if 1 \<le> refilled then rounded (refilled - 1) else refilled)"
  assumes "redis_hmset key ''tokens'' tokens' ''last_refill'' (of_int now) s = Inr s1"
    and "s1 key = Some (v, t)"
  shows "token_bucket_lua key (of_int limit) (of_int windowSeconds) (of_int now) s =
     (Inr [if 1 \<le> refilled then 1 else 0, \<lfloor>tokens'\<rfloor>, now + windowSeconds * 1000],
      s1(key \<mapsto> (v, Some (windowSeconds * 2 * 1000))))"
proof -
  have tk: "token_take (Finite refilled) = (Finite tokens', if 1 \<le> refilled then 1 else 0)"
  proof (cases "1 \<le> refilled")
    case True
    have "(of_int limit :: rat) < 2 ^ 53"
      using assms(1) by (simp add: of_int_less_numeral_power_cancel_iff)
    with True assms(7) have "\<bar>refilled - 1\<bar> < 2 ^ 53"
      by simp
    then have "dsub (Finite refilled) (Finite 1) = Finite (rounded (refilled - 1))"
      by (intro dsub_Finite [where k = 53]) simp_all
    with True show ?thesis
      by (simp add: token_take_def tokens'_def)
  next
    case False
    then show ?thesis
      by (simp add: token_take_def tokens'_def)
  qed
  have hm: "call_hmset key ''tokens'' (Finite tokens') ''last_refill'' (Finite (of_int now)) s = Inr s1"
    using assms(9) by (simp add: call_hmset_def)
  have w2: "dmul (Finite (of_int windowSeconds)) (Finite 2) = Finite (of_int (windowSeconds * 2))"
    using dmul_int [of windowSeconds 2] assms(2-4) by simp
  have ex: "call_expire key (Finite (of_int (windowSeconds * 2))) s1 =
      Inr (s1(key \<mapsto> (v, Some (windowSeconds * 2 * 1000))))"
  proof -
    have e: "is_integer (of_int windowSeconds * 2)"
      using is_integer_of_int [of "windowSeconds * 2"] by simp
    have f: "\<lfloor>(of_int windowSeconds :: rat) * 2\<rfloor> = windowSeconds * 2"
      using floor_of_int [of "windowSeconds * 2", where ?'a = rat] by (simp del: floor_of_int)
    show ?thesis
      using assms(2,10) e f by (simp add: call_expire_def redis_expire_def)
  qed
  have w1000: "dmul (Finite (of_int windowSeconds)) (Finite 1000) = Finite (of_int (windowSeconds * 1000))"
    using dmul_int [of windowSeconds 1000] assms(2-4) by simp
  have rs: "dadd (Finite (of_int now)) (Finite (of_int (windowSeconds * 1000))) =
      Finite (of_int (now + windowSeconds * 1000))"
    using assms(2-4) by (intro dadd_int) simp
  have rp: "lua_return [Finite a, dfloor (Finite tokens'), Finite (of_int (now + windowSeconds * 1000))] =
      Inr [lua_to_integer a, \<lfloor>tokens'\<rfloor>, now + windowSeconds * 1000]" for a
    by (simp add: lua_return_def lua_reply_def lua_to_integer_of_int del: of_int_add of_int_mult)
  have z: "lua_to_integer (if 1 \<le> refilled then 1 else 0) = (if 1 \<le> refilled then 1 else 0)"
    by (simp add: lua_to_integer_def)
  show ?thesis
    by (simp only: token_bucket_lua_def assms(5,6) tk hm w2 ex w1000 rs rp z sum.case prod.case)
qed

text \<open>One run on a record that exists.\<close>

lemma token_bucket_existing:
  fixes limit windowSeconds now last_refill :: int
  assumes "0 < limit" and "limit < 2 ^ 53" and "0 < windowSeconds"
    and "0 \<le> last_refill" and "last_refill \<le> now" and "now + windowSeconds * 1000 < 2 ^ 53"
    and "s key = Some (RHash h, t)"
    and "h ''tokens'' = Some tokens" and "h ''last_refill'' = Some (of_int last_refill)"
    and "\<bar>tokens\<bar> \<le> 2 ^ 53"
  defines "refilled \<equiv> double_refilled limit windowSeconds now tokens (of_int last_refill)"
  defines "tokens' \<equiv> (if 1 \<le> refilled then rounded (refilled - 1) else refilled)"
  shows "token_bucket_lua key (of_int limit) (of_int windowSeconds) (of_int now) s =
     (Inr [if 1 \<le> refilled then 1 else 0, \<lfloor>tokens'\<rfloor>, now + windowSeconds * 1000],
      s(key \<mapsto> (RHash ((h(''tokens'' \<mapsto> tokens'))(''last_refill'' \<mapsto> of_int now)),
                  Some (windowSeconds * 2 * 1000))))"
proof -
  have nb: "0 \<le> now" "now < 2 ^ 53"
    using assms(3-6) by simp_all
  have g: "redis_hmget key ''tokens'' ''last_refill'' s = Inr (Some tokens, Some (of_int last_refill))"
    using assms(7-9) by (simp add: redis_hmget_def)
  have rf: "token_refill (of_int limit) (of_int windowSeconds) (of_int now) (Some tokens)
      (Some (of_int last_refill)) = Inr (Finite refilled, Finite (of_int now))"
    unfolding refilled_def using assms(1-5) nb(2) assms(10) by (rule token_refill_existing)
  have le: "refilled \<le> of_int limit"
    by (simp add: refilled_def double_refilled_def)
  define s1 where "s1 = s(key \<mapsto> (RHash ((h(''tokens'' \<mapsto> tokens'))(''last_refill'' \<mapsto> of_int now)), t))"
  have hm: "redis_hmset key ''tokens'' tokens' ''last_refill'' (of_int now) s = Inr s1"
    using assms(7) by (simp add: redis_hmset_def s1_def)
  have k: "s1 key = Some (RHash ((h(''tokens'' \<mapsto> tokens'))(''last_refill'' \<mapsto> of_int now)), t)"
    by (simp add: s1_def)
  have u: "s1(key \<mapsto> x) = s(key \<mapsto> x)" for x
    by (simp add: s1_def)
  from token_bucket_run [OF assms(2,3) nb(1) assms(6) g rf le hm [unfolded tokens'_def] k [unfolded tokens'_def]]
  show ?thesis
    unfolding u tokens'_def .
qed

text \<open>When \<open>windowSeconds\<close> divides \<open>limit\<close> and the stored \<open>tokens\<close> is a whole number, no
  operation of the refill rounds: the script computes the formula of the specification.\<close>

lemma double_refilled_exact:
  fixes limit windowSeconds now last_refill n :: int
  assumes "0 < limit" and "limit < 2 ^ 53" and "0 < windowSeconds" and "windowSeconds dvd limit"
    and "last_refill \<le> now" and "0 \<le> n"
  defines "refilled \<equiv> double_refilled limit windowSeconds now (of_int n) (of_int last_refill)"
  shows "refilled = spec_refilled limit windowSeconds now (of_int n) (of_int last_refill)"
    and "1 \<le> refilled \<Longrightarrow> rounded (refilled - 1) = refilled - 1"
proof -
  define k where "k = (now - last_refill) div 1000"
  define R where "R = limit div windowSeconds"
  define P where "P = k * R"
  have fs: "\<lfloor>(of_int now - of_int last_refill) / (1000 :: rat)\<rfloor> = k"
    using floor_divide_of_int_eq [of "now - last_refill" 1000, where ?'a = rat]
    by (simp add: k_def)
  have k: "0 \<le> k"
    using assms(5) by (simp add: k_def pos_imp_zdiv_nonneg_iff)
  have lim: "limit = R * windowSeconds"
    using assms(4) by (simp add: R_def)
  have R: "0 < R" "R \<le> limit"
    using assms(1,3) lim by (metis zero_less_mult_pos2, metis mult.right_neutral mult_le_cancel_left_pos
        int_one_le_iff_zero_less zero_less_mult_pos2)
  have rate: "(of_int limit :: rat) / of_int windowSeconds = of_int R"
    using assms(3) by (subst lim) simp
  have "rounded (of_int R) = (of_int R :: rat)"
    using R assms(2) by (intro rounded_of_int) simp
  then have dr: "refilled = min (of_int limit) (rounded (of_int n + rounded (of_int P)))"
    by (simp add: refilled_def double_refilled_def fs rate P_def)
  have sp: "spec_refilled limit windowSeconds now (of_int n) (of_int last_refill) =
      of_int (min limit (n + P))"
    by (simp add: spec_refilled_def fs rate P_def of_int_min)
  have P: "0 \<le> P"
    using k R by (simp add: P_def)
  have lb: "\<bar>limit\<bar> < 2 ^ 53"
    using assms(1,2) by simp
  have eq: "refilled = of_int (min limit (n + P))"
  proof (cases "n + P < 2 ^ 53")
    case True
    with P assms(6) have "\<bar>P\<bar> < 2 ^ 53" "\<bar>n + P\<bar> < 2 ^ 53"
      by simp_all
    then have "rounded (of_int P) = (of_int P :: rat)" "rounded (of_int (n + P)) = (of_int (n + P) :: rat)"
      by (simp_all only: rounded_of_int)
    then show ?thesis
      by (simp add: dr of_int_min)
  next
    case False
    with assms(2) have big: "limit \<le> n + P"
      by simp
    have large: "of_int limit \<le> rounded (of_int P)" if "\<not> P < 2 ^ 53"
    proof -
      from that assms(2) have "(of_int limit :: rat) \<le> of_int P"
        by simp
      then show ?thesis
        using lb by (rule rounded_ge_int)
    qed
    have small: "rounded (of_int P) = (of_int P :: rat)" if "P < 2 ^ 53"
      using that P by (intro rounded_of_int) simp
    have "(of_int limit :: rat) \<le> of_int n + rounded (of_int P)"
    proof (cases "P < 2 ^ 53")
      case True
      have "(of_int limit :: rat) \<le> of_int (n + P)"
        using big by (simp only: of_int_le_iff)
      with small [OF True] show ?thesis
        by simp
    next
      case False
      have "(0 :: rat) \<le> of_int n"
        using assms(6) by simp
      with large [OF False] show ?thesis
        by linarith
    qed
    then have "(of_int limit :: rat) \<le> rounded (of_int n + rounded (of_int P))"
      using lb by (rule rounded_ge_int)
    with big show ?thesis
      by (simp add: dr)
  qed
  with sp show "refilled = spec_refilled limit windowSeconds now (of_int n) (of_int last_refill)"
    by simp
  assume one: "1 \<le> refilled"
  define m where "m = min limit (n + P)"
  have m: "refilled = of_int m"
    by (simp add: eq m_def)
  with one have "1 \<le> m"
    by simp
  moreover have "m \<le> limit"
    by (simp add: m_def)
  ultimately have "\<bar>m - 1\<bar> < 2 ^ 53"
    using assms(2) by simp
  then have "rounded (of_int (m - 1)) = (of_int (m - 1) :: rat)"
    by (rule rounded_of_int)
  then show "rounded (refilled - 1) = refilled - 1"
    by (simp add: m)
qed


text \<open>The scenario of the specification, through \<open>checkRateLimit\<close> on a fresh client:
  \<open>limit = 10\<close>, \<open>windowSeconds = 10\<close>, ten calls at \<open>t = 0\<close>, one at 500 ms, one at
  1500 ms.\<close>

lemma token_bucket_scenario:
  "fst (decisions key 10 10 ''token_bucket'' [0, 0, 0, 0, 0, 0, 0, 0, 0, 0, 500, 1500] fresh_client) =
    [Inr \<lparr>allowed = True, remaining = 9, resetAt = 10000\<rparr>,
     Inr \<lparr>allowed = True, remaining = 8, resetAt = 10000\<rparr>,
     Inr \<lparr>allowed = True, remaining = 7, resetAt = 10000\<rparr>,
     Inr \<lparr>allowed = True, remaining = 6, resetAt = 10000\<rparr>,
     Inr \<lparr>allowed = True, remaining = 5, resetAt = 10000\<rparr>,
     Inr \<lparr>allowed = True, remaining = 4, resetAt = 10000\<rparr>,
     Inr \<lparr>allowed = True, remaining = 3, resetAt = 10000\<rparr>,
     Inr \<lparr>allowed = True, remaining = 2, resetAt = 10000\<rparr>,
     Inr \<lparr>allowed = True, remaining = 1, resetAt = 10000\<rparr>,
     Inr \<lparr>allowed = True, remaining = 0, resetAt = 10000\<rparr>,
     Inr \<lparr>allowed = False, remaining = 0, resetAt = 10500\<rparr>,
     Inr \<lparr>allowed = True, remaining = 0, resetAt = 11500\<rparr>]"
  by (simp add: client_defs script_defs command_defs rat_eval double_eval Let_def)

text \<open>
  One token per 49 seconds. In doubles \<open>1 / 49\<close> is \<open>5882252574524729 / 2^58\<close>, a little
  below the quotient, and 49 times that rounds to \<open>1 - 2^-53\<close>, the double just below 1.
\<close>

lemma rounded_one_49th: "rounded (1 / 49) = 5882252574524729 / 288230376151711744"
proof -
  have "rounded (1 / 49) = of_int (round_even ((1 / 49) / 2 powi (- 58))) * 2 powi (- 58)"
    by (rule rounded_eval) (simp_all add: two_powi_neg_numeral)
  also have "(1 / 49 :: rat) / 2 powi (- 58) = 288230376151711744 / 49"
    by (simp add: two_powi_neg_numeral)
  also have "round_even (288230376151711744 / 49) = 5882252574524729"
    by (simp add: round_even_def rat_eval Let_def)
  finally show ?thesis
    by (simp add: two_powi_neg_numeral)
qed

lemma rounded_49_49ths:
  "rounded (288230376151711721 / 288230376151711744) = 9007199254740991 / 9007199254740992"
proof -
  have "rounded (288230376151711721 / 288230376151711744) =
      of_int (round_even ((288230376151711721 / 288230376151711744) / 2 powi (- 53))) * 2 powi (- 53)"
    by (rule rounded_eval) (simp_all add: two_powi_neg_numeral)
  also have "(288230376151711721 / 288230376151711744 :: rat) / 2 powi (- 53) =
      288230376151711721 / 32"
    by (simp add: two_powi_neg_numeral)
  also have "round_even (288230376151711721 / 32) = 9007199254740991"
    by (simp add: round_even_def rat_eval Let_def)
  finally show ?thesis
    by (simp add: two_powi_neg_numeral)
qed

lemma rounded_below_one:
  "rounded (9007199254740991 / 9007199254740992) = 9007199254740991 / 9007199254740992"
  using rounded_dyadic [of 9007199254740991 53] by simp

lemma round_double_49ths:
  "round_double (1 / 49) = Finite (5882252574524729 / 288230376151711744)"
  "round_double (288230376151711721 / 288230376151711744) =
     Finite (9007199254740991 / 9007199254740992)"
  "round_double (9007199254740991 / 9007199254740992) =
     Finite (9007199254740991 / 9007199254740992)"
proof -
  have "\<bar>1 / 49 :: rat\<bar> < 2 ^ 1"
    by simp
  from rounded_small(2) [OF this] rounded_one_49th
  show "round_double (1 / 49) = Finite (5882252574524729 / 288230376151711744)"
    by simp
  have "\<bar>288230376151711721 / 288230376151711744 :: rat\<bar> < 2 ^ 1"
    by simp
  from rounded_small(2) [OF this] rounded_49_49ths
  show "round_double (288230376151711721 / 288230376151711744) =
     Finite (9007199254740991 / 9007199254740992)"
    by simp
  have "\<bar>9007199254740991 / 9007199254740992 :: rat\<bar> < 2 ^ 1"
    by simp
  from rounded_small(2) [OF this] rounded_below_one
  show "round_double (9007199254740991 / 9007199254740992) =
     Finite (9007199254740991 / 9007199254740992)"
    by simp
qed

lemma double_refilled_49:
  "double_refilled 1 49 49000 0 0 = 9007199254740991 / 9007199254740992"
  by (simp add: double_refilled_def rat_eval rounded_one_49th rounded_49_49ths rounded_below_one)

text \<open>
  Claim C3 describes the step of the token bucket with the refill
  \<open>min(limit, tokens + floor((now - last_refill) / 1000) * (limit / windowSeconds))\<close>. Read
  as a formula of numbers, that fails on the code: \<open>token-bucket.lua\<close> computes it in
  doubles, and the quotient and the product are rounded. With \<open>limit = 1\<close> and
  \<open>windowSeconds = 49\<close>, a first call at \<open>t = 0\<close> takes the one token; 49 seconds later the
  formula refills \<open>49 * (1 / 49) = 1\<close> token, so that the call is allowed and leaves 0; the
  script refills \<open>1 - 2^-53\<close>, denies the call and stores that number.
\<close>

theorem token_bucket_rounds_down:
  "spec_refilled 1 49 49000 0 0 = 1
   \<and> token_bucket_lua ''k'' 1 49 49000
        [''k'' \<mapsto> (RHash [''tokens'' \<mapsto> 0, ''last_refill'' \<mapsto> 0], Some 98000)] =
      (Inr [0, 0, 98000],
       [''k'' \<mapsto> (RHash [''tokens'' \<mapsto> 9007199254740991 / 9007199254740992,
                            ''last_refill'' \<mapsto> 49000], Some 98000)])
   \<and> fst (decisions ''k'' 1 49 ''token_bucket'' [0, 49000] fresh_client) =
      [Inr \<lparr>allowed = True, remaining = 0, resetAt = 49000\<rparr>,
       Inr \<lparr>allowed = False, remaining = 0, resetAt = 98000\<rparr>]"
proof -
  have "spec_refilled 1 49 49000 0 0 = 1"
    by (simp add: spec_refilled_def rat_eval)
  moreover have "token_bucket_lua ''k'' 1 49 49000
        [''k'' \<mapsto> (RHash [''tokens'' \<mapsto> 0, ''last_refill'' \<mapsto> 0], Some 98000)] =
      (Inr [0, 0, 98000],
       [''k'' \<mapsto> (RHash [''tokens'' \<mapsto> 9007199254740991 / 9007199254740992,
                            ''last_refill'' \<mapsto> 49000], Some 98000)])"
    by (simp add: script_defs command_defs rat_eval double_eval Let_def round_double_49ths)
  moreover have "fst (decisions ''k'' 1 49 ''token_bucket'' [0, 49000] fresh_client) =
      [Inr \<lparr>allowed = True, remaining = 0, resetAt = 49000\<rparr>,
       Inr \<lparr>allowed = False, remaining = 0, resetAt = 98000\<rparr>]"
    by (simp add: client_defs script_defs command_defs rat_eval double_eval Let_def
        round_double_49ths)
  ultimately show ?thesis
    by (intro conjI)
qed

text \<open>
  Claim C3 as amended. For every call of the token bucket with \<open>limit > 0\<close>,
  \<open>windowSeconds > 0\<close> and \<open>now\<close> not before the stored \<open>last_refill\<close>, on a record that
  exists: the script sets \<open>tokens\<close> to \<open>min(limit, tokens + floor((now - last_refill) /
  1000) * (limit / windowSeconds))\<close> computed in double precision, the quotient, the
  product and the sum each rounded to the nearest double (\<open>double_refilled\<close>), and
  \<open>last_refill\<close> to \<open>now\<close> (also when nothing is refilled); it allows exactly when the
  refilled tokens are at least 1, and then takes one token; it stores the two fields and
  replies \<open>{allowed, floor(tokens), last_refill + windowSeconds * 1000}\<close>. When
  \<open>windowSeconds\<close> divides \<open>limit\<close> and the stored \<open>tokens\<close> is a whole number, nothing is
  rounded and the refill is the formula itself. With \<open>limit = 10\<close> and \<open>windowSeconds =
  10\<close>, ten calls at \<open>t = 0\<close> are allowed, a call at 500 ms is denied with \<open>remaining =
  0\<close>, and a call at 1500 ms is allowed with \<open>remaining = 0\<close>. The numbers are those the
  wrapper can pass exactly: integers with \<open>limit\<close> and \<open>now + windowSeconds * 1000\<close> below
  \<open>2^53\<close>, a stored \<open>last_refill\<close> that is a clock reading, a stored \<open>tokens\<close> of
  magnitude at most \<open>2^53\<close>.
\<close>

theorem token_bucket_step:
  fixes limit windowSeconds now last_refill :: int
  assumes "0 < limit" and "limit < 2 ^ 53" and "0 < windowSeconds"
    and "0 \<le> last_refill" and "last_refill \<le> now" and "now + windowSeconds * 1000 < 2 ^ 53"
    and "s key = Some (RHash h, t)"
    and "h ''tokens'' = Some tokens" and "h ''last_refill'' = Some (of_int last_refill)"
    and "\<bar>tokens\<bar> \<le> 2 ^ 53"
  defines "refilled \<equiv> double_refilled limit windowSeconds now tokens (of_int last_refill)"
  defines "allow \<equiv> 1 \<le> refilled"
  defines "tokens' \<equiv> (if allow then rounded (refilled - 1) else refilled)"
  shows "token_bucket_lua key (of_int limit) (of_int windowSeconds) (of_int now) s =
           (Inr [if allow then 1 else 0, \<lfloor>tokens'\<rfloor>, now + windowSeconds * 1000],
            s(key \<mapsto> (RHash ((h(''tokens'' \<mapsto> tokens'))(''last_refill'' \<mapsto> of_int now)),
                        Some (windowSeconds * 2 * 1000))))
         \<and> (windowSeconds dvd limit \<and> is_integer tokens \<and> 0 \<le> tokens
            \<longrightarrow> refilled = spec_refilled limit windowSeconds now tokens (of_int last_refill)
                \<and> tokens' = (if allow then refilled - 1 else refilled))
         \<and> map (map_sum id (\<lambda>e. (allowed e, remaining e)))
              (fst (decisions k 10 10 ''token_bucket''
                      [0, 0, 0, 0, 0, 0, 0, 0, 0, 0, 500, 1500] fresh_client)) =
             [Inr (True, 9), Inr (True, 8), Inr (True, 7), Inr (True, 6), Inr (True, 5),
              Inr (True, 4), Inr (True, 3), Inr (True, 2), Inr (True, 1), Inr (True, 0),
              Inr (False, 0), Inr (True, 0)]"
proof -
  have step: "token_bucket_lua key (of_int limit) (of_int windowSeconds) (of_int now) s =
           (Inr [if allow then 1 else 0, \<lfloor>tokens'\<rfloor>, now + windowSeconds * 1000],
            s(key \<mapsto> (RHash ((h(''tokens'' \<mapsto> tokens'))(''last_refill'' \<mapsto> of_int now)),
                        Some (windowSeconds * 2 * 1000))))"
    unfolding refilled_def allow_def tokens'_def
    using assms(1-10) by (rule token_bucket_existing)
  have exact: "windowSeconds dvd limit \<and> is_integer tokens \<and> 0 \<le> tokens
            \<longrightarrow> refilled = spec_refilled limit windowSeconds now tokens (of_int last_refill)
                \<and> tokens' = (if allow then refilled - 1 else refilled)"
  proof (intro impI, elim conjE)
    assume d: "windowSeconds dvd limit" and i: "is_integer tokens" and p: "0 \<le> tokens"
    define n where "n = \<lfloor>tokens\<rfloor>"
    have n: "tokens = of_int n"
      using i by (simp add: is_integer_def n_def)
    have "0 \<le> n"
      using p by (simp add: n_def)
    note ex = double_refilled_exact [OF assms(1-3) d assms(5) this, folded n]
    from ex(1) ex(2) show "refilled = spec_refilled limit windowSeconds now tokens (of_int last_refill)
        \<and> tokens' = (if allow then refilled - 1 else refilled)"
      by (simp add: tokens'_def allow_def refilled_def)
  qed
  have "map (map_sum id (\<lambda>e. (allowed e, remaining e)))
              (fst (decisions k 10 10 ''token_bucket''
                      [0, 0, 0, 0, 0, 0, 0, 0, 0, 0, 500, 1500] fresh_client)) =
             [Inr (True, 9), Inr (True, 8), Inr (True, 7), Inr (True, 6), Inr (True, 5),
              Inr (True, 4), Inr (True, 3), Inr (True, 2), Inr (True, 1), Inr (True, 0),
              Inr (False, 0), Inr (True, 0)]"
    unfolding token_bucket_scenario by simp
  with step exact show ?thesis
    by (intro conjI)
qed

theorem token_bucket_step_witness:
  "token_bucket_lua ''k'' (of_int 10) (of_int 10) (of_int 1500)
        [''k'' \<mapsto> (RHash [''tokens'' \<mapsto> 0, ''last_refill'' \<mapsto> of_int 500], None)] =
      (Inr [1, 0, 11500],
       [''k'' \<mapsto> (RHash [''tokens'' \<mapsto> 0, ''last_refill'' \<mapsto> 1500], Some 20000)])
   \<and> double_refilled 10 10 1500 0 (of_int 500) = spec_refilled 10 10 1500 0 (of_int 500)
   \<and> token_bucket_lua ''k'' (of_int 1) (of_int 49) (of_int 49000)
        [''k'' \<mapsto> (RHash [''tokens'' \<mapsto> 0, ''last_refill'' \<mapsto> of_int 0], Some 98000)] =
      (Inr [0, 0, 98000],
       [''k'' \<mapsto> (RHash [''tokens'' \<mapsto> 9007199254740991 / 9007199254740992,
                            ''last_refill'' \<mapsto> 49000], Some 98000)])"
proof -
  have r: "double_refilled 10 10 1500 0 500 = 1"
    by (simp add: double_refilled_def rat_eval rounded_one)
  from token_bucket_step [of 10 10 500 1500
      "[''k'' \<mapsto> (RHash [''tokens'' \<mapsto> 0, ''last_refill'' \<mapsto> of_int 500], None)]"
      "''k''" "[''tokens'' \<mapsto> 0, ''last_refill'' \<mapsto> of_int 500]" None 0]
  have "token_bucket_lua ''k'' (of_int 10) (of_int 10) (of_int 1500)
        [''k'' \<mapsto> (RHash [''tokens'' \<mapsto> 0, ''last_refill'' \<mapsto> of_int 500], None)] =
      (Inr [1, 0, 11500],
       [''k'' \<mapsto> (RHash [''tokens'' \<mapsto> 0, ''last_refill'' \<mapsto> 1500], Some 20000)])
   \<and> double_refilled 10 10 1500 0 (of_int 500) = spec_refilled 10 10 1500 0 (of_int 500)"
    by (simp add: r is_integer_def rounded_zero)
  moreover from token_bucket_step [of 1 49 0 49000
      "[''k'' \<mapsto> (RHash [''tokens'' \<mapsto> 0, ''last_refill'' \<mapsto> of_int 0], Some 98000)]"
      "''k''" "[''tokens'' \<mapsto> 0, ''last_refill'' \<mapsto> of_int 0]" "Some 98000" 0]
  have "token_bucket_lua ''k'' (of_int 1) (of_int 49) (of_int 49000)
        [''k'' \<mapsto> (RHash [''tokens'' \<mapsto> 0, ''last_refill'' \<mapsto> of_int 0], Some 98000)] =
      (Inr [0, 0, 98000],
       [''k'' \<mapsto> (RHash [''tokens'' \<mapsto> 9007199254740991 / 9007199254740992,
                            ''last_refill'' \<mapsto> 49000], Some 98000)])"
    by (simp add: double_refilled_49 rat_eval)
  ultimately show ?thesis
    by (intro conjI) simp_all
qed

section \<open>The fixed window\<close>

lemma incr_cases:
  assumes "redis_incr key s = Inr (cur, s1)"
  obtains t where "s1 = s(key \<mapsto> (RString cur, t))"
  using assms
  by (auto simp: redis_incr_def split: option.splits rvalue.splits prod.splits)

lemma backoff_window:
  fixes window :: int
  shows "min (of_int window * 2 ^ e) MAX_SAFE_INTEGER = (of_int (min (window * 2 ^ e) (2 ^ 53 - 1)) :: rat)"
  by (simp add: MAX_SAFE_INTEGER_def of_int_min)

text \<open>The backoff branch of \<open>rate-limit.lua\<close> (lines 12 to 15). \<open>cur\<close> is the counter after
  \<open>INCR\<close>.\<close>

lemma rate_limit_backoff:
  fixes window max_hits :: int
  assumes "0 < window"
    and "redis_incr key s = Inr (cur, s1)"
    and "max_hits < cur"
    and "\<not> (cur = 1 \<or> (ce \<and> max_hits < cur))"
  defines "armed \<equiv> min (window * 2 ^ nat (cur - max_hits - 1)) (2 ^ 53 - 1)"
  shows "rate_limit_lua key (of_int window) (of_int max_hits) ce True s =
           (Inr [cur, armed], s1(key \<mapsto> (RString cur, Some armed)))"
proof -
  obtain t where s1: "s1 = s(key \<mapsto> (RString cur, t))"
    using assms(2) by (rule incr_cases)
  have pos: "0 < armed"
    using assms(1) by (simp add: armed_def)
  have bw: "min (of_int window * 2 ^ nat (cur - max_hits - 1)) MAX_SAFE_INTEGER = (of_int armed :: rat)"
    unfolding armed_def by (rule backoff_window)
  have pe: "redis_pexpire key (of_int armed) s1 = Inr (s1(key \<mapsto> (RString cur, Some armed)))"
    using pos by (simp add: redis_pexpire_def is_integer_of_int s1)
  show ?thesis
    using assms(2-4)
    by (simp add: rate_limit_lua_def is_integer_of_int bw pe Let_def lua_reply_def
        lua_to_integer_of_int)
qed

text \<open>The re-arm branch (lines 10 and 11) when the counter is over \<open>max\<close> and
  \<open>continueExceeding\<close> is set, whatever \<open>exponentialBackoff\<close> is.\<close>

lemma rate_limit_rearm:
  fixes window max_hits :: int
  assumes "0 < window"
    and "redis_incr key s = Inr (cur, s1)"
    and "max_hits < cur"
  shows "rate_limit_lua key (of_int window) (of_int max_hits) True eb s =
           (Inr [cur, window], s1(key \<mapsto> (RString cur, Some window)))"
proof -
  obtain t where s1: "s1 = s(key \<mapsto> (RString cur, t))"
    using assms(2) by (rule incr_cases)
  show ?thesis
    using assms
    by (simp add: rate_limit_lua_def redis_pexpire_def is_integer_of_int s1 lua_reply_def
        lua_to_integer_of_int)
qed

lemma backoff_scenario:
  "fst (fixed_window_calls 4 key 1000 1 False True fresh_client) =
     [Inr \<lparr>current = 1, timeWindow = 1000\<rparr>, Inr \<lparr>current = 2, timeWindow = 1000\<rparr>,
      Inr \<lparr>current = 3, timeWindow = 2000\<rparr>, Inr \<lparr>current = 4, timeWindow = 4000\<rparr>]"
  by (simp add: numeral_eq_Suc client_defs script_defs command_defs rat_eval Let_def)

lemma rearm_scenario:
  "fst (fixed_window_calls 4 key 1000 1 True True fresh_client) =
     [Inr \<lparr>current = 1, timeWindow = 1000\<rparr>, Inr \<lparr>current = 2, timeWindow = 1000\<rparr>,
      Inr \<lparr>current = 3, timeWindow = 1000\<rparr>, Inr \<lparr>current = 4, timeWindow = 1000\<rparr>]"
  by (simp add: numeral_eq_Suc client_defs script_defs command_defs rat_eval Let_def)

text \<open>
  Claim C4. Fixed-window exponential backoff: on every call with \<open>exponentialBackoff =
  true\<close> whose incremented counter \<open>current\<close> is over \<open>max\<close>, when the re-arm branch
  (\<open>current == 1\<close>, or \<open>continueExceeding\<close> and \<open>current > max\<close>) does not apply, the
  expiry armed on the key is \<open>min(timeWindow * 2^(current - max - 1), 2^53 - 1)\<close>
  milliseconds, and the reply carries that value as \<open>timeWindow\<close>. With \<open>max = 1\<close>, the
  flag set and a base window of 1000 ms, four successive calls return \<open>timeWindow\<close> 1000,
  1000, 2000, 4000 with \<open>current\<close> 1, 2, 3, 4. The base window is positive, as the
  interface requires.
\<close>

theorem exponential_backoff:
  fixes window max_hits :: int
  assumes "0 < window"
    and "redis_incr key s = Inr (cur, s1)"
    and "max_hits < cur"
    and "\<not> (cur = 1 \<or> (continueExceeding \<and> max_hits < cur))"
  defines "armed \<equiv> min (window * 2 ^ nat (cur - max_hits - 1)) (2 ^ 53 - 1)"
  shows "rate_limit_lua key (of_int window) (of_int max_hits) continueExceeding True s =
           (Inr [cur, armed], s1(key \<mapsto> (RString cur, Some armed)))
         \<and> redis_pttl key (snd (rate_limit_lua key (of_int window) (of_int max_hits)
                                  continueExceeding True s)) = armed
         \<and> fst (fixed_window_calls 4 k 1000 1 False True fresh_client) =
             [Inr \<lparr>current = 1, timeWindow = 1000\<rparr>, Inr \<lparr>current = 2, timeWindow = 1000\<rparr>,
              Inr \<lparr>current = 3, timeWindow = 2000\<rparr>, Inr \<lparr>current = 4, timeWindow = 4000\<rparr>]"
proof -
  have step: "rate_limit_lua key (of_int window) (of_int max_hits) continueExceeding True s =
           (Inr [cur, armed], s1(key \<mapsto> (RString cur, Some armed)))"
    unfolding armed_def using assms(1-4) by (rule rate_limit_backoff)
  have ttl: "redis_pttl key (snd (rate_limit_lua key (of_int window) (of_int max_hits)
                                  continueExceeding True s)) = armed"
    unfolding step by (simp add: redis_pttl_def)
  from step ttl backoff_scenario [of k] show ?thesis
    by (intro conjI)
qed

theorem exponential_backoff_witness:
  "rate_limit_lua ''k'' (of_int 1000) (of_int 1) False True [''k'' \<mapsto> (RString 2, Some 900)] =
     (Inr [3, 2000], [''k'' \<mapsto> (RString 3, Some 2000)])
   \<and> rate_limit_lua ''k'' (of_int 1000) (of_int 1) False True [''k'' \<mapsto> (RString 61, Some 900)] =
     (Inr [62, 9007199254740991], [''k'' \<mapsto> (RString 62, Some 9007199254740991)])"
  using exponential_backoff [of 1000 "''k''" "[''k'' \<mapsto> (RString 2, Some 900)]" 3
      "[''k'' \<mapsto> (RString 3, Some 900)]" 1 False]
    exponential_backoff [of 1000 "''k''" "[''k'' \<mapsto> (RString 61, Some 900)]" 62
      "[''k'' \<mapsto> (RString 62, Some 900)]" 1 False]
  by (simp add: redis_incr_def)

text \<open>
  Claim C9. \<open>continueExceeding\<close> takes precedence: on every fixed-window call with both
  \<open>continueExceeding\<close> and \<open>exponentialBackoff\<close> set whose incremented counter is over
  \<open>max\<close>, the expiry of the key is re-armed to the base \<open>timeWindow\<close>, not to the scaled
  value, and the reply carries the base value as \<open>timeWindow\<close>. The base window is
  positive, as the interface requires.
\<close>

theorem continue_exceeding_wins:
  fixes window max_hits :: int
  assumes "0 < window"
    and "redis_incr key s = Inr (cur, s1)"
    and "max_hits < cur"
  shows "rate_limit_lua key (of_int window) (of_int max_hits) True True s =
           (Inr [cur, window], s1(key \<mapsto> (RString cur, Some window)))
         \<and> redis_pttl key (snd (rate_limit_lua key (of_int window) (of_int max_hits) True True s)) =
             window"
proof -
  have step: "rate_limit_lua key (of_int window) (of_int max_hits) True True s =
           (Inr [cur, window], s1(key \<mapsto> (RString cur, Some window)))"
    using assms by (rule rate_limit_rearm)
  have "redis_pttl key (snd (rate_limit_lua key (of_int window) (of_int max_hits) True True s)) =
          window"
    unfolding step by (simp add: redis_pttl_def)
  with step show ?thesis
    by (intro conjI)
qed

theorem continue_exceeding_wins_witness:
  "rate_limit_lua ''k'' (of_int 1000) (of_int 1) True True [''k'' \<mapsto> (RString 3, Some 250)] =
     (Inr [4, 1000], [''k'' \<mapsto> (RString 4, Some 1000)])
   \<and> fst (fixed_window_calls 4 ''k'' 1000 1 True True fresh_client) =
     [Inr \<lparr>current = 1, timeWindow = 1000\<rparr>, Inr \<lparr>current = 2, timeWindow = 1000\<rparr>,
      Inr \<lparr>current = 3, timeWindow = 1000\<rparr>, Inr \<lparr>current = 4, timeWindow = 1000\<rparr>]"
  using continue_exceeding_wins [of 1000 "''k''" "[''k'' \<mapsto> (RString 3, Some 250)]" 4
      "[''k'' \<mapsto> (RString 4, Some 250)]" 1]
    rearm_scenario [of "''k''"]
  by (simp add: redis_incr_def)

section \<open>The capacity bound\<close>

text \<open>One run of \<open>token-bucket.lua\<close> on an absent record.\<close>

lemma token_bucket_fresh:
  fixes limit windowSeconds now :: int
  assumes "0 < limit" and "limit < 2 ^ 53" and "0 < windowSeconds" and "0 \<le> now"
    and "now + windowSeconds * 1000 < 2 ^ 53" and "s key = None"
  shows "token_bucket_lua key (of_int limit) (of_int windowSeconds) (of_int now) s =
     (Inr [1, limit - 1, now + windowSeconds * 1000],
      s(key \<mapsto> (RHash [''tokens'' \<mapsto> of_int limit - 1, ''last_refill'' \<mapsto> of_int now],
                  Some (windowSeconds * 2 * 1000))))"
proof -
  have g: "redis_hmget key ''tokens'' ''last_refill'' s = Inr (None, None)"
    using assms(6) by (simp add: redis_hmget_def)
  have rf: "token_refill (of_int limit) (of_int windowSeconds) (of_int now) None None =
      Inr (Finite (of_int limit), Finite (of_int now))"
    by (simp add: token_refill_def)
  have one: "(1 :: rat) \<le> of_int limit"
    using assms(1) by simp
  have "\<bar>limit - 1\<bar> < 2 ^ 53"
    using assms(1,2) by simp
  then have "rounded (of_int (limit - 1)) = (of_int (limit - 1) :: rat)"
    by (rule rounded_of_int)
  then have r: "rounded (of_int limit - 1) = (of_int limit - 1 :: rat)"
    by simp
  define s1 where "s1 = s(key \<mapsto> (RHash [''tokens'' \<mapsto> of_int limit - 1, ''last_refill'' \<mapsto> of_int now], None))"
  have hm: "redis_hmset key ''tokens''
      (if (1 :: rat) \<le> of_int limit then rounded (of_int limit - 1) else of_int limit)
      ''last_refill'' (of_int now) s = Inr s1"
    using assms(6) one by (simp add: redis_hmset_def s1_def r)
  have k: "s1 key = Some (RHash [''tokens'' \<mapsto> of_int limit - 1, ''last_refill'' \<mapsto> of_int now], None)"
    by (simp add: s1_def)
  have fl: "\<lfloor>(of_int limit :: rat) - 1\<rfloor> = limit - 1"
    using floor_of_int [of "limit - 1", where ?'a = rat] by (simp del: floor_of_int)
  have u: "s1(key \<mapsto> x) = s(key \<mapsto> x)" for x
    by (simp add: s1_def)
  have le: "(of_int limit :: rat) \<le> of_int limit"
    by simp
  from token_bucket_run [OF assms(2-5) g rf le hm k] one show ?thesis
    unfolding u by (simp add: r fl)
qed

text \<open>The refill and the admission keep \<open>tokens\<close> between 0 and \<open>limit\<close>: rounding does
  not cross a whole number.\<close>

lemma double_refilled_bounds:
  fixes limit windowSeconds now :: int
  assumes "0 < limit" and "limit < 2 ^ 53" and "0 < windowSeconds"
    and "0 \<le> tokens" and "last_refill \<le> of_int now"
  defines "refilled \<equiv> double_refilled limit windowSeconds now tokens last_refill"
  shows "0 \<le> refilled" and "refilled \<le> of_int limit"
    and "0 \<le> (if 1 \<le> refilled then rounded (refilled - 1) else refilled)"
    and "(if 1 \<le> refilled then rounded (refilled - 1) else refilled) \<le> of_int limit"
proof -
  have z: "\<bar>0 :: int\<bar> < 2 ^ 53" and lb: "\<bar>limit\<bar> < 2 ^ 53"
    using assms(1,2) by simp_all
  have "(0 :: rat) \<le> of_int limit / of_int windowSeconds"
    using assms(1,3) by simp
  then have "of_int 0 \<le> rounded (of_int limit / of_int windowSeconds)"
    using z by (intro rounded_ge_int) simp_all
  then have rate: "0 \<le> rounded (of_int limit / of_int windowSeconds)"
    by simp
  have "0 \<le> (of_int now - last_refill) / 1000"
    using assms(5) by simp
  then have "(0 :: rat) \<le> of_int \<lfloor>(of_int now - last_refill) / 1000\<rfloor>"
    by simp
  then have "0 \<le> of_int \<lfloor>(of_int now - last_refill) / 1000\<rfloor>
      * rounded (of_int limit / of_int windowSeconds)"
    using rate by (rule mult_nonneg_nonneg)
  then have "of_int 0 \<le> rounded (of_int \<lfloor>(of_int now - last_refill) / 1000\<rfloor>
      * rounded (of_int limit / of_int windowSeconds))"
    using z by (intro rounded_ge_int) simp_all
  with assms(4) have "of_int 0 \<le> tokens + rounded (of_int \<lfloor>(of_int now - last_refill) / 1000\<rfloor>
      * rounded (of_int limit / of_int windowSeconds))"
    by simp
  then have "of_int 0 \<le> rounded (tokens + rounded (of_int \<lfloor>(of_int now - last_refill) / 1000\<rfloor>
      * rounded (of_int limit / of_int windowSeconds)))"
    using z by (rule rounded_ge_int)
  then show lo: "0 \<le> refilled"
    using assms(1) by (simp add: refilled_def double_refilled_def)
  show hi: "refilled \<le> of_int limit"
    by (simp add: refilled_def double_refilled_def)
  have "of_int 0 \<le> rounded (refilled - 1)" if "1 \<le> refilled"
    using that z by (intro rounded_ge_int) simp_all
  with lo show "0 \<le> (if 1 \<le> refilled then rounded (refilled - 1) else refilled)"
    by simp
  have "rounded (refilled - 1) \<le> of_int limit"
    using hi lb by (intro rounded_le_int) simp_all
  with hi show "(if 1 \<le> refilled then rounded (refilled - 1) else refilled) \<le> of_int limit"
    by simp
qed

lemma token_bucket_capacity_bound:
  fixes limit windowSeconds now :: int
  assumes "0 < limit" and "limit < 2 ^ 53" and "0 < windowSeconds" and "0 \<le> now"
    and "now + windowSeconds * 1000 < 2 ^ 53"
    and "s key = None \<or>
         (\<exists>h t tokens last_refill. s key = Some (RHash h, t) \<and> h ''tokens'' = Some tokens
            \<and> h ''last_refill'' = Some (of_int last_refill)
            \<and> 0 \<le> tokens \<and> tokens \<le> of_int limit \<and> 0 \<le> last_refill \<and> last_refill \<le> now)"
  shows "\<exists>tokens'. hash_field (snd (token_bucket_lua key (of_int limit) (of_int windowSeconds)
                                       (of_int now) s)) key ''tokens'' = Some tokens'
                   \<and> 0 \<le> tokens' \<and> tokens' \<le> of_int limit"
  using assms(6)
proof
  assume "s key = None"
  from token_bucket_fresh [where s = s and key = key, OF assms(1-5) this] assms(1) show ?thesis
    by (simp add: hash_field_def)
next
  assume "\<exists>h t tokens last_refill. s key = Some (RHash h, t) \<and> h ''tokens'' = Some tokens
            \<and> h ''last_refill'' = Some (of_int last_refill)
            \<and> 0 \<le> tokens \<and> tokens \<le> of_int limit \<and> 0 \<le> last_refill \<and> last_refill \<le> now"
  then obtain h t tokens and last_refill :: int where
    rec: "s key = Some (RHash h, t)" "h ''tokens'' = Some tokens"
      "h ''last_refill'' = Some (of_int last_refill)"
    and b: "0 \<le> tokens" "tokens \<le> of_int limit" "0 \<le> last_refill" "last_refill \<le> now"
    by blast
  have "(of_int limit :: rat) \<le> 2 ^ 53"
    using assms(2) by (simp add: of_int_le_numeral_power_cancel_iff)
  with b(1,2) have tb: "\<bar>tokens\<bar> \<le> 2 ^ 53"
    by simp
  have lr: "(of_int last_refill :: rat) \<le> of_int now"
    using b(4) by simp
  note bounds = double_refilled_bounds [OF assms(1-3) b(1) lr]
  note run = token_bucket_existing [where s = s and key = key and h = h,
      OF assms(1-3) b(3,4) assms(5) rec tb]
  show ?thesis
    using bounds(3,4) by (simp add: run hash_field_def)
qed

subsection \<open>The leaky bucket\<close>

text \<open>The leak rate the wrapper passes.\<close>

lemma leak_rate_bounds:
  fixes limit windowSeconds :: int
  assumes "0 < limit" and "limit < 2 ^ 53" and "0 < windowSeconds"
  defines "rate \<equiv> rounded (of_int limit / of_int windowSeconds)"
  shows "ddiv (Finite (of_int limit)) (Finite (of_int windowSeconds)) = Finite rate"
    and "0 \<le> rate" and "rate \<le> of_int limit"
proof -
  have lb: "\<bar>limit\<bar> < 2 ^ 53" and z: "\<bar>0 :: int\<bar> < 2 ^ 53"
    using assms(1,2) by simp_all
  have "\<bar>of_int limit / of_int windowSeconds :: rat\<bar> \<le> \<bar>of_int limit\<bar>"
    using assms(3) by (rule abs_div_int_le)
  also have "\<dots> < 2 ^ 53"
    using lb by (rule of_int_abs_less)
  finally show "ddiv (Finite (of_int limit)) (Finite (of_int windowSeconds)) = Finite rate"
    unfolding rate_def using assms(3) by (intro ddiv_Finite [where k = 53]) simp_all
  have "(of_int 0 :: rat) \<le> of_int limit / of_int windowSeconds"
    using assms(1,3) by simp
  from rounded_ge_int [OF this z] show "0 \<le> rate"
    by (simp add: rate_def)
  have "(of_int limit :: rat) / of_int windowSeconds \<le> of_int limit / 1"
    using assms(1,3) by (intro divide_left_mono) simp_all
  then have "(of_int limit :: rat) / of_int windowSeconds \<le> of_int limit"
    by simp
  from rounded_le_int [OF this lb] show "rate \<le> of_int limit"
    by (simp add: rate_def)
qed

text \<open>The leak keeps the water between 0 and \<open>capacity + 1\<close>.\<close>

lemma leak_bounds:
  fixes limit now last_leak :: int
  assumes "0 < limit" and "limit + 1 < 2 ^ 53" and "0 \<le> rate" and "rate \<le> of_int limit"
    and "0 \<le> water" and "water \<le> of_int limit + 1"
    and "0 \<le> last_leak" and "last_leak \<le> now" and "now < 2 ^ 53"
  shows "\<exists>x. leak (Finite rate) (of_int now) (Some water) (Some (of_int last_leak)) = Finite x
             \<and> 0 \<le> x \<and> x \<le> of_int limit + 1"
proof -
  have lb: "\<bar>limit + 1\<bar> < 2 ^ 53" and z: "\<bar>0 :: int\<bar> < 2 ^ 53"
    using assms(1,2) by simp_all
  have "(of_int (limit + 1) :: rat) \<le> 2 ^ 53"
    using assms(2) by (simp only: of_int_le_numeral_power_cancel_iff)
  then have l53: "(of_int limit :: rat) + 1 \<le> 2 ^ 53"
    by simp
  have e: "0 \<le> now - last_leak" "now - last_leak < 2 ^ 53"
    using assms(7-9) by simp_all
  define tp where "tp = rounded (of_int (now - last_leak) / 1000)"
  define leaked where "leaked = rounded (tp * rate)"
  have d: "dsub (Finite (of_int now)) (Finite (of_int last_leak)) = Finite (of_int (now - last_leak))"
    using e by (intro dsub_int) simp
  have "\<bar>of_int (now - last_leak) / 1000 :: rat\<bar> \<le> \<bar>of_int (now - last_leak)\<bar>"
    by (simp add: abs_divide field_simps)
  also have "\<dots> < 2 ^ 53"
    using e by (intro of_int_abs_less) simp
  finally have qb: "\<bar>of_int (now - last_leak) / 1000 :: rat\<bar> < 2 ^ 53" .
  then have q: "ddiv (Finite (of_int (now - last_leak))) (Finite 1000) = Finite tp"
    unfolding tp_def by (intro ddiv_Finite [where k = 53]) simp_all
  have tpb: "\<bar>tp\<bar> \<le> 2 ^ 53"
    unfolding tp_def using qb by (intro rounded_small(1)) simp_all
  have "(of_int 0 :: rat) \<le> of_int (now - last_leak) / 1000"
    using e(1) by simp
  from rounded_ge_int [OF this z] have tp0: "0 \<le> tp"
    by (simp add: tp_def)
  have rb: "\<bar>rate\<bar> \<le> 2 ^ 53"
    using assms(3,4) l53 by simp
  from abs_mult_less [OF tpb rb] have pb: "\<bar>tp * rate\<bar> < 2 ^ 107"
    by simp
  then have m: "dmul (Finite tp) (Finite rate) = Finite leaked"
    unfolding leaked_def by (intro dmul_Finite [where k = 107]) simp_all
  have lkb: "\<bar>leaked\<bar> \<le> 2 ^ 107"
    unfolding leaked_def using pb by (intro rounded_small(1)) simp_all
  have "of_int 0 \<le> tp * rate"
    using tp0 assms(3) by simp
  from rounded_ge_int [OF this z] have lk0: "0 \<le> leaked"
    by (simp add: leaked_def)
  have wb: "\<bar>water\<bar> \<le> 2 ^ 53"
    using assms(5,6) l53 by simp
  have "\<bar>water + - leaked\<bar> < 2 ^ 108"
    using abs_add_less [OF wb, of "- leaked" 107] lkb by simp
  then have "\<bar>water - leaked\<bar> < 2 ^ 108"
    by simp
  then have s: "dsub (Finite water) (Finite leaked) = Finite (rounded (water - leaked))"
    by (intro dsub_Finite [where k = 108]) simp_all
  have "water - leaked \<le> of_int (limit + 1)"
    using lk0 assms(6) by simp
  from rounded_le_int [OF this lb] have hi: "rounded (water - leaked) \<le> of_int limit + 1"
    by simp
  have "leak (Finite rate) (of_int now) (Some water) (Some (of_int last_leak)) =
      lua_max (Finite 0) (Finite (rounded (water - leaked)))"
    by (simp only: leak_def Let_def option.case d q m s)
  also have "\<dots> = Finite (max 0 (rounded (water - leaked)))"
    by (simp add: lua_max_def max_def)
  finally show ?thesis
    using hi assms(1) by simp
qed

lemma leak_absent: "leak (Finite rate) now None None = Finite 0"
  by (simp add: leak_def Let_def dsub_def round_double_zero lua_max_def)


text \<open>The admission adds at most one unit.\<close>

lemma pour_bounds:
  fixes limit :: int
  assumes "0 < limit" and "limit + 1 < 2 ^ 53" and "0 \<le> x" and "x \<le> of_int limit + 1"
  shows "\<exists>w a. pour (of_int limit) (Finite x) = (Finite w, a) \<and> 0 \<le> w \<and> w \<le> of_int limit + 1"
proof (cases "x < of_int limit")
  case True
  have z: "\<bar>0 :: int\<bar> < 2 ^ 53" and lb: "\<bar>limit + 1\<bar> < 2 ^ 53"
    using assms(1,2) by simp_all
  have "(of_int (limit + 1) :: rat) < 2 ^ 53"
    using assms(2) by (simp only: of_int_less_numeral_power_cancel_iff)
  with True assms(3) have "\<bar>x + 1\<bar> < 2 ^ 53"
    by simp
  then have a: "dadd (Finite x) (Finite 1) = Finite (rounded (x + 1))"
    by (intro dadd_Finite [where k = 53]) simp_all
  have "of_int 0 \<le> x + 1"
    using assms(3) by simp
  from rounded_ge_int [OF this z] have lo: "0 \<le> rounded (x + 1)"
    by simp
  have "x + 1 \<le> of_int (limit + 1)"
    using True by simp
  from rounded_le_int [OF this lb] have hi: "rounded (x + 1) \<le> of_int limit + 1"
    by simp
  from True a lo hi show ?thesis
    by (simp add: pour_def)
next
  case False
  with assms(3,4) show ?thesis
    by (simp add: pour_def)
qed

text \<open>Whatever happens after the \<open>HMSET\<close> of \<open>leaky-bucket.lua\<close>, the water it wrote stays:
  \<open>EXPIRE\<close> is refused, or it arms an expiry of at least one second.\<close>

lemma leaky_bucket_stores:
  fixes limit :: int
  assumes "0 < limit" and "0 \<le> rate" and "rate \<le> of_int limit"
    and "s key = None \<or> (\<exists>h t. s key = Some (RHash h, t))"
    and "redis_hmget key ''water'' ''last_leak'' s = Inr (b1, b2)"
    and "pour (of_int limit) (leak (Finite rate) now b1 b2) = (Finite w, a)"
  shows "hash_field (snd (leaky_bucket_lua key (of_int limit) (Finite rate) now s)) key ''water'' =
           Some w"
proof -
  obtain s1 where hm: "redis_hmset key ''water'' w ''last_leak'' now s = Inr s1"
    and f1: "hash_field s1 key ''water'' = Some w"
    using assms(4) by (auto simp: redis_hmset_def hash_field_def)
  have c: "call_hmset key ''water'' (Finite w) ''last_leak'' (Finite now) s = Inr s1"
    using hm by (simp add: call_hmset_def)
  show ?thesis
  proof (cases "call_expire key (ddiv (Finite (of_int limit)) (Finite rate)) s1")
    case (Inl e)
    with f1 show ?thesis
      by (simp add: leaky_bucket_lua_def assms(5,6) c)
  next
    case (Inr s2)
    then obtain x where x: "ddiv (Finite (of_int limit)) (Finite rate) = Finite x"
      and ex: "redis_expire key x s1 = Inr s2"
      by (auto simp: call_expire_def split: double.splits)
    have pos: "0 < rate"
    proof (rule ccontr)
      assume "\<not> 0 < rate"
      with assms(2) have "rate = 0" by simp
      with x assms(1) show False
        by (simp add: signed_infinity_def)
    qed
    with x have "round_double (of_int limit / rate) = Finite x"
      by simp
    then have xr: "x = rounded (of_int limit / rate)"
      by (simp add: round_double_def Let_def split: if_splits)
    have "of_int 1 \<le> of_int limit / rate"
      using pos assms(3) by (simp add: le_divide_eq)
    moreover have "\<bar>1 :: int\<bar> < 2 ^ 53"
      by simp
    ultimately have "of_int 1 \<le> x"
      unfolding xr by (rule rounded_ge_int)
    then have "\<not> x \<le> 0"
      by simp
    with ex f1 have "hash_field s2 key ''water'' = Some w"
      by (auto simp: redis_expire_def hash_field_def split: if_splits option.splits prod.splits rvalue.splits)
    with Inr show ?thesis
      by (simp add: leaky_bucket_lua_def assms(5,6) c split: sum.splits)
  qed
qed

lemma leaky_bucket_water_bounds:
  fixes limit windowSeconds now :: int
  assumes "0 < limit" and "limit + 1 < 2 ^ 53" and "0 < windowSeconds" and "now < 2 ^ 53"
    and "s key = None \<or>
         (\<exists>h t water last_leak. s key = Some (RHash h, t) \<and> h ''water'' = Some water
            \<and> h ''last_leak'' = Some (of_int last_leak)
            \<and> 0 \<le> water \<and> water \<le> of_int limit + 1 \<and> 0 \<le> last_leak \<and> last_leak \<le> now)"
  shows "\<exists>water'. hash_field (snd (leaky_bucket_lua key (of_int limit)
                      (ddiv (Finite (of_int limit)) (Finite (of_int windowSeconds)))
                      (of_int now) s)) key ''water'' = Some water'
                   \<and> 0 \<le> water' \<and> water' \<le> of_int limit + 1"
proof -
  define rate where "rate = rounded (of_int limit / of_int windowSeconds)"
  have l: "limit < 2 ^ 53"
    using assms(2) by simp
  note r = leak_rate_bounds [OF assms(1) l assms(3), folded rate_def]
  have rec: "s key = None \<or> (\<exists>h t. s key = Some (RHash h, t))"
    using assms(5) by blast
  have "\<exists>b1 b2 x. redis_hmget key ''water'' ''last_leak'' s = Inr (b1, b2)
      \<and> leak (Finite rate) (of_int now) b1 b2 = Finite x \<and> 0 \<le> x \<and> x \<le> of_int limit + 1"
    using assms(5)
  proof
    assume "s key = None"
    then have "redis_hmget key ''water'' ''last_leak'' s = Inr (None, None)"
      by (simp add: redis_hmget_def)
    with leak_absent [of rate "of_int now"] assms(1) show ?thesis
      by simp
  next
    assume "\<exists>h t water last_leak. s key = Some (RHash h, t) \<and> h ''water'' = Some water
            \<and> h ''last_leak'' = Some (of_int last_leak)
            \<and> 0 \<le> water \<and> water \<le> of_int limit + 1 \<and> 0 \<le> last_leak \<and> last_leak \<le> now"
    then obtain h t water and last_leak :: int where
      k: "s key = Some (RHash h, t)" "h ''water'' = Some water"
        "h ''last_leak'' = Some (of_int last_leak)"
      and b: "0 \<le> water" "water \<le> of_int limit + 1" "0 \<le> last_leak" "last_leak \<le> now"
      by blast
    have "redis_hmget key ''water'' ''last_leak'' s = Inr (Some water, Some (of_int last_leak))"
      using k by (simp add: redis_hmget_def)
    with leak_bounds [OF assms(1,2) r(2,3) b assms(4)] show ?thesis
      by simp
  qed
  then obtain b1 b2 x where g: "redis_hmget key ''water'' ''last_leak'' s = Inr (b1, b2)"
    and lk: "leak (Finite rate) (of_int now) b1 b2 = Finite x" and x: "0 \<le> x" "x \<le> of_int limit + 1"
    by blast
  from pour_bounds [OF assms(1,2) x] obtain w a where
    p: "pour (of_int limit) (Finite x) = (Finite w, a)" and w: "0 \<le> w" "w \<le> of_int limit + 1"
    by blast
  from p lk have "pour (of_int limit) (leak (Finite rate) (of_int now) b1 b2) = (Finite w, a)"
    by simp
  from leaky_bucket_stores [OF assms(1) r(2,3) rec g this] w show ?thesis
    unfolding r(1) by blast
qed


text \<open>The \<open>EXPIRE\<close> of \<open>leaky-bucket.lua\<close> receives the double \<open>capacity / leak_rate\<close>. With
  \<open>limit = 7\<close> and \<open>windowSeconds = 25\<close> the rate is the double next to \<open>0.28\<close> and the
  quotient is \<open>25 - 2\<^sup>-\<^sup>4\<^sup>8\<close>, not an integer: the call fails after the record was
  written.\<close>

lemma rounded_7_25ths: "rounded (7 / 25) = 1261007895663739 / 4503599627370496"
proof -
  have "rounded (7 / 25) = of_int (round_even ((7 / 25) / 2 powi (- 54))) * 2 powi (- 54)"
    by (rule rounded_eval) (simp_all add: two_powi_neg_numeral)
  also have "(7 / 25 :: rat) / 2 powi (- 54) = 126100789566373888 / 25"
    by (simp add: two_powi_neg_numeral)
  also have "round_even (126100789566373888 / 25) = 5044031582654956"
    by (simp add: round_even_def rat_eval Let_def)
  finally show ?thesis
    by (simp add: two_powi_neg_numeral)
qed

lemma rounded_window_25:
  "rounded (31525197391593472 / 1261007895663739) = 7036874417766399 / 281474976710656"
proof -
  have "rounded (31525197391593472 / 1261007895663739) =
      of_int (round_even ((31525197391593472 / 1261007895663739) / 2 powi (- 48))) * 2 powi (- 48)"
    by (rule rounded_eval) (simp_all add: two_powi_neg_numeral)
  also have "(31525197391593472 / 1261007895663739 :: rat) / 2 powi (- 48) =
      8873554201597605810476922437632 / 1261007895663739"
    by (simp add: two_powi_neg_numeral)
  also have "round_even (8873554201597605810476922437632 / 1261007895663739) = 7036874417766399"
    by (simp add: round_even_def rat_eval Let_def)
  finally show ?thesis
    by (simp add: two_powi_neg_numeral)
qed

lemma round_double_25ths:
  "round_double (7 / 25) = Finite (1261007895663739 / 4503599627370496)"
  "round_double (31525197391593472 / 1261007895663739) =
     Finite (7036874417766399 / 281474976710656)"
proof -
  have "\<bar>7 / 25 :: rat\<bar> < 2 ^ 1"
    by simp
  from rounded_small(2) [OF this] rounded_7_25ths
  show "round_double (7 / 25) = Finite (1261007895663739 / 4503599627370496)"
    by simp
  have "\<bar>31525197391593472 / 1261007895663739 :: rat\<bar> < 2 ^ 5"
    by simp
  from rounded_small(2) [OF this] rounded_window_25
  show "round_double (31525197391593472 / 1261007895663739) =
     Finite (7036874417766399 / 281474976710656)"
    by simp
qed

lemma leaky_bucket_expire_refused:
  "fst (leakyBucket ''k'' 7 25 0 fresh_client) = Inl NOT_AN_INTEGER"
  "hash_field (keyspace (client (snd (leakyBucket ''k'' 7 25 0 fresh_client)))) ''k'' ''water'' = Some 1"
  by (simp_all add: client_defs script_defs command_defs rat_eval double_eval round_double_25ths
      Let_def hash_field_def)

text \<open>
  Claim C1 (capacity bound) fails on the code for the leaky bucket. The token bucket
  keeps \<open>0 \<le> tokens \<le> limit\<close> (\<open>token_bucket_capacity_bound\<close>), and the leaky bucket
  keeps \<open>0 \<le> water\<close>, but \<open>leaky-bucket.lua\<close> admits a unit whenever \<open>water < capacity\<close>,
  also when less than one unit of room is left: the stored \<open>water\<close> then exceeds
  \<open>capacity\<close> (it stays at or below \<open>capacity + 1\<close>, \<open>leaky_bucket_water_bounds\<close>). With
  \<open>capacity = 5\<close> and a leak of one unit per second, five calls at \<open>t = 0\<close> leave
  \<open>water = 5\<close>, within the bound; the call at \<open>t = 500\<close> leaks half a unit, admits, and
  stores \<open>water = 11/2\<close>.
\<close>

theorem leaky_bucket_exceeds_capacity:
  "hash_field (keyspace (client (snd (decisions key 5 5 ''leaky_bucket'' [0, 0, 0, 0, 0] fresh_client))))
       key ''water'' = Some 5
   \<and> hash_field (keyspace (client (snd (decisions key 5 5 ''leaky_bucket'' [0, 0, 0, 0, 0] fresh_client))))
       key ''last_leak'' = Some 0
   \<and> hash_field (keyspace (client (snd (decisions key 5 5 ''leaky_bucket'' [0, 0, 0, 0, 0, 500] fresh_client))))
       key ''water'' = Some (11 / 2)"
  by (simp add: client_defs script_defs command_defs rat_eval double_eval Let_def hash_field_def)

section \<open>The script runner\<close>

lemma command_errors:
  "redis_incr key s = Inl e \<Longrightarrow> e = WRONGTYPE"
  "redis_pexpire key x s = Inl e \<Longrightarrow> e = NOT_AN_INTEGER"
  "redis_expire key x s = Inl e \<Longrightarrow> e = NOT_AN_INTEGER"
  "redis_hmget key f1 f2 s = Inl e \<Longrightarrow> e = WRONGTYPE"
  "redis_hmset key f1 v1 f2 v2 s = Inl e \<Longrightarrow> e = WRONGTYPE"
  "redis_zremrangebyscore key lo hi s = Inl e \<Longrightarrow> e = WRONGTYPE"
  "redis_zcard key s = Inl e \<Longrightarrow> e = WRONGTYPE"
  "redis_zadd key x y s = Inl e \<Longrightarrow> e = WRONGTYPE"
  "redis_hgetall key s = Inl e \<Longrightarrow> e = WRONGTYPE"
  by (auto simp: redis_incr_def redis_pexpire_def redis_expire_def redis_hmget_def
      redis_hmset_def redis_zremrangebyscore_def redis_zcard_def redis_zadd_def redis_hgetall_def
      split: option.splits rvalue.splits prod.splits if_splits list.splits)

lemma call_errors:
  "call_hmset key f1 v1 f2 v2 s = Inl e \<Longrightarrow> e = WRONGTYPE \<or> e = NotRational"
  "call_expire key x s = Inl e \<Longrightarrow> e = NOT_AN_INTEGER"
  "lua_return ds = Inl e \<Longrightarrow> e = NotRational"
  "token_refill limit window now b1 b2 = Inl e \<Longrightarrow> e = NIL_ARITHMETIC"
  by (auto simp: call_hmset_def call_expire_def lua_return_def token_refill_def Let_def
      split: double.splits option.splits dest: command_errors)

lemma token_bucket_errors:
  "fst (token_bucket_lua key limit window now s) = Inl e \<Longrightarrow> script_error e"
  by (auto simp: token_bucket_lua_def script_error_def
      split: sum.splits prod.splits dest: command_errors call_errors)

lemma leaky_bucket_errors:
  "fst (leaky_bucket_lua key capacity leak_rate now s) = Inl e \<Longrightarrow> script_error e"
  by (auto simp: leaky_bucket_lua_def script_error_def
      split: sum.splits prod.splits dest: command_errors call_errors)

lemma sliding_window_errors:
  "fst (sliding_window_lua key limit ws now wms s) = Inl e \<Longrightarrow> script_error e"
  by (auto simp: sliding_window_lua_def script_error_def Let_def
      split: sum.splits prod.splits option.splits if_splits dest: command_errors)

lemma rate_limit_errors:
  "fst (rate_limit_lua key tw mx ce eb s) = Inl e \<Longrightarrow> script_error e"
  by (auto simp: rate_limit_lua_def script_error_def Let_def
      split: sum.splits prod.splits option.splits if_splits dest: command_errors)

lemma run_script_errors:
  "fst (run_script script keys args s) = Inl e \<Longrightarrow> script_error e"
  by (auto simp: run_script_def script_error_def [of BAD_ARGUMENTS]
      split: lua_script.splits list.splits arg.splits option.splits
      dest: token_bucket_errors leaky_bucket_errors sliding_window_errors rate_limit_errors)

lemma script_error_not_noscript:
  "script_error e \<Longrightarrow> \<not> message_includes e ''NOSCRIPT''"
  by (auto simp: script_error_def WRONGTYPE_def NOT_AN_INTEGER_def NIL_ARITHMETIC_def BAD_ARGUMENTS_def)

lemma fault_not_noscript: "\<not> message_includes (fault_error f) ''NOSCRIPT''"
  by (cases f) simp_all


lemma arrive_fields:
  "keyspace (arrive r) = keyspace r"
  "issued (arrive r) = issued r"
  "faults (arrive r) = faults r"
  by (simp_all add: arrive_def split: list.splits bool.splits)

lemma arrive_quiet: "flushes r = [] \<Longrightarrow> arrive r = r"
  by (simp add: arrive_def)

lemma issue_issued: "issued (snd (issue cmd r)) = issued r @ [cmd]"
  by (simp add: issue_def split: list.splits option.splits)

lemma issue_script_cache: "script_cache (snd (issue cmd r)) = script_cache (arrive r)"
  by (simp add: issue_def split: list.splits option.splits)

lemma issue_quiet: "flushes r = [] \<Longrightarrow> flushes (snd (issue cmd r)) = []"
  by (simp add: issue_def arrive_quiet split: list.splits option.splits)

lemma issue_error: "fst (issue cmd r) = Some e \<Longrightarrow> \<not> message_includes e ''NOSCRIPT''"
  by (auto simp: issue_def fault_not_noscript split: list.splits option.splits)

lemma run_on_issued: "issued (snd (run_on script keys args r)) = issued r"
  by (simp add: run_on_def split: prod.splits)

lemma run_on_flushes: "flushes (snd (run_on script keys args r)) = flushes r"
  by (simp add: run_on_def split: prod.splits)

lemma run_on_error:
  "fst (run_on script keys args r) = Inl e \<Longrightarrow> \<not> message_includes e ''NOSCRIPT''"
  using run_script_errors [of script keys args "keyspace r" e]
  by (auto simp: run_on_def split: prod.splits dest: script_error_not_noscript)

lemma client_evalsha_issued:
  "issued (snd (client_evalsha sha keys args r)) = issued r @ [EVALSHA sha keys args]"
  using issue_issued [of "EVALSHA sha keys args" r]
  by (auto simp: client_evalsha_def run_on_issued split: prod.splits option.splits)

lemma client_script_load_issued:
  "issued (snd (client_script_load script r)) = issued r @ [SCRIPT_LOAD script]"
  using issue_issued [of "SCRIPT_LOAD script" r]
  by (auto simp: client_script_load_def split: prod.splits option.splits)

lemma client_eval_issued:
  "issued (snd (client_eval script keys args r)) = issued r @ [EVAL script keys args]"
  using issue_issued [of "EVAL script keys args" r]
  by (auto simp: client_eval_def run_on_issued split: prod.splits option.splits)

lemma client_script_load_result:
  assumes "client_script_load script r = (Inr newSha, r2)"
  shows "newSha = sha1hex script" and "script_cache r2 (sha1hex script) = Some script"
  using assms
  by (auto simp: client_script_load_def split: prod.splits option.splits)

lemma client_evalsha_quiet:
  assumes "flushes r = []"
  shows "flushes (snd (client_evalsha sha keys args r)) = []"
  using issue_quiet [OF assms, of "EVALSHA sha keys args"]
  by (auto simp: client_evalsha_def run_on_flushes split: prod.splits option.splits)

lemma client_script_load_quiet:
  assumes "flushes r = []"
  shows "flushes (snd (client_script_load script r)) = []"
  using issue_quiet [OF assms, of "SCRIPT_LOAD script"]
  by (auto simp: client_script_load_def split: prod.splits option.splits)

lemma client_script_load_error:
  "fst (client_script_load script r) = Inl e \<Longrightarrow> \<not> message_includes e ''NOSCRIPT''"
  using issue_error [of "SCRIPT_LOAD script" r]
  by (auto simp: client_script_load_def split: prod.splits option.splits)

lemma client_eval_error:
  "fst (client_eval script keys args r) = Inl e \<Longrightarrow> \<not> message_includes e ''NOSCRIPT''"
  using issue_error [of "EVAL script keys args" r]
  by (auto simp: client_eval_def split: prod.splits option.splits dest: run_on_error)

text \<open>A digest that the store knows when the command arrives is never answered with
  NOSCRIPT.\<close>

lemma client_evalsha_known:
  assumes "script_cache (arrive r) sha = Some script"
    and "fst (client_evalsha sha keys args r) = Inl e"
  shows "\<not> message_includes e ''NOSCRIPT''"
  using assms issue_error [of "EVALSHA sha keys args" r]
    issue_script_cache [of "EVALSHA sha keys args" r]
  by (auto simp: client_evalsha_def split: prod.splits option.splits dest: run_on_error)

lemma client_evalsha_lost:
  assumes "fst (client_evalsha sha keys args r) = Inl e" and "message_includes e ''NOSCRIPT''"
  shows "script_cache (arrive r) sha = None"
proof (cases "script_cache (arrive r) sha")
  case None
  then show ?thesis .
next
  case (Some script)
  from client_evalsha_known [OF this assms(1)] assms(2) show ?thesis
    by simp
qed

lemma runner_hit:
  assumes "cached_sha c scriptName = Some sha"
    and "client_evalsha sha keys args (client c) = (Inr result, r1)"
  shows "evalWithFallback scriptName keys args c = (Inr result, c\<lparr>client := r1\<rparr>)"
    and "issued r1 = issued (client c) @ [EVALSHA sha keys args]"
  using assms client_evalsha_issued [of sha keys args "client c"]
  by (simp_all add: evalWithFallback_def)

lemma runner_other_error:
  assumes "cached_sha c scriptName = Some sha"
    and "client_evalsha sha keys args (client c) = (Inl err, r1)"
    and "\<not> message_includes err ''NOSCRIPT''"
  shows "evalWithFallback scriptName keys args c = (Inl err, c\<lparr>client := r1\<rparr>)"
    and "issued r1 = issued (client c) @ [EVALSHA sha keys args]"
  using assms client_evalsha_issued [of sha keys args "client c"]
  by (simp_all add: evalWithFallback_def)

lemma runner_reload:
  assumes "cached_sha c scriptName = Some sha"
    and "client_evalsha sha keys args (client c) = (Inl err, r1)"
    and "message_includes err ''NOSCRIPT''"
    and "LUA_SCRIPTS scriptName = Some script"
    and "client_script_load script r1 = (Inr newSha, r2)"
    and "client_evalsha newSha keys args r2 = (res, r3)"
  shows "evalWithFallback scriptName keys args c =
           (res, c\<lparr>scriptShas := (scriptShas c)(scriptName \<mapsto> newSha), client := r3\<rparr>)"
    and "issued r3 = issued (client c) @
           [EVALSHA sha keys args, SCRIPT_LOAD script, EVALSHA newSha keys args]"
    and "newSha = sha1hex script"
proof -
  show "evalWithFallback scriptName keys args c =
           (res, c\<lparr>scriptShas := (scriptShas c)(scriptName \<mapsto> newSha), client := r3\<rparr>)"
    using assms by (simp add: evalWithFallback_def)
  show "issued r3 = issued (client c) @
           [EVALSHA sha keys args, SCRIPT_LOAD script, EVALSHA newSha keys args]"
    using client_evalsha_issued [of sha keys args "client c"]
      client_script_load_issued [of script r1]
      client_evalsha_issued [of newSha keys args r2] assms(2,5,6)
    by simp
  show "newSha = sha1hex script"
    using assms(5) by (rule client_script_load_result)
qed

lemma runner_reload_fails:
  assumes "cached_sha c scriptName = Some sha"
    and "client_evalsha sha keys args (client c) = (Inl err, r1)"
    and "message_includes err ''NOSCRIPT''"
    and "LUA_SCRIPTS scriptName = Some script"
    and "client_script_load script r1 = (Inl err2, r2)"
  shows "evalWithFallback scriptName keys args c = (Inl err2, c\<lparr>client := r2\<rparr>)"
    and "issued r2 = issued (client c) @ [EVALSHA sha keys args, SCRIPT_LOAD script]"
  using assms client_evalsha_issued [of sha keys args "client c"]
      client_script_load_issued [of script r1]
  by (simp_all add: evalWithFallback_def)

lemma runner_direct:
  assumes "cached_sha c scriptName = None"
    and "LUA_SCRIPTS scriptName = Some script"
    and "client_eval script keys args (client c) = (res, r1)"
  shows "evalWithFallback scriptName keys args c = (res, c\<lparr>client := r1\<rparr>)"
    and "issued r1 = issued (client c) @ [EVAL script keys args]"
  using assms client_eval_issued [of script keys args "client c"]
  by (simp_all add: evalWithFallback_def)

text \<open>The one way for NOSCRIPT to reach the caller: it answers the retry, the store
  having lost the digest between the reload and the retry.\<close>

lemma runner_noscript:
  assumes "LUA_SCRIPTS scriptName = Some script"
    and "fst (evalWithFallback scriptName keys args c) = Inl e"
    and "message_includes e ''NOSCRIPT''"
  shows "\<exists>sha err r1 r2.
           cached_sha c scriptName = Some sha
           \<and> client_evalsha sha keys args (client c) = (Inl err, r1)
           \<and> message_includes err ''NOSCRIPT''
           \<and> client_script_load script r1 = (Inr (sha1hex script), r2)
           \<and> fst (client_evalsha (sha1hex script) keys args r2) = Inl e
           \<and> script_cache (arrive r2) (sha1hex script) = None"
proof (cases "cached_sha c scriptName")
  case None
  obtain res r1 where ev: "client_eval script keys args (client c) = (res, r1)"
    by (cases "client_eval script keys args (client c)")
  from runner_direct(1) [OF None assms(1) ev] assms(2) have "res = Inl e"
    by simp
  with ev have "fst (client_eval script keys args (client c)) = Inl e"
    by simp
  from client_eval_error [OF this] assms(3) show ?thesis
    by simp
next
  case (Some sha)
  obtain res1 r1 where first: "client_evalsha sha keys args (client c) = (res1, r1)"
    by (cases "client_evalsha sha keys args (client c)")
  show ?thesis
  proof (cases res1)
    case (Inr result)
    with runner_hit(1) [OF Some] first assms(2) show ?thesis
      by simp
  next
    case (Inl err)
    then have f: "client_evalsha sha keys args (client c) = (Inl err, r1)"
      using first by simp
    show ?thesis
    proof (cases "message_includes err ''NOSCRIPT''")
      case False
      with runner_other_error(1) [OF Some f] assms(2,3) show ?thesis
        by simp
    next
      case True
      obtain res2 r2 where load: "client_script_load script r1 = (res2, r2)"
        by (cases "client_script_load script r1")
      show ?thesis
      proof (cases res2)
        case (Inl err2)
        with load have l: "client_script_load script r1 = (Inl err2, r2)"
          by simp
        from runner_reload_fails(1) [OF Some f True assms(1) l] assms(2) have "err2 = e"
          by simp
        moreover have "fst (client_script_load script r1) = Inl err2"
          using l by simp
        ultimately show ?thesis
          using client_script_load_error assms(3) by blast
      next
        case (Inr newSha)
        with load have l: "client_script_load script r1 = (Inr newSha, r2)"
          by simp
        then have n: "newSha = sha1hex script"
          by (rule client_script_load_result)
        obtain res r3 where retry: "client_evalsha newSha keys args r2 = (res, r3)"
          by (cases "client_evalsha newSha keys args r2")
        from runner_reload(1) [OF Some f True assms(1) l retry] assms(2) have "res = Inl e"
          by simp
        with retry n have r: "fst (client_evalsha (sha1hex script) keys args r2) = Inl e"
          by simp
        from r assms(3) have "script_cache (arrive r2) (sha1hex script) = None"
          by (rule client_evalsha_lost)
        with Some f True l n r show ?thesis
          by blast
      qed
    qed
  qed
qed

text \<open>On a store that nobody flushes during the call, NOSCRIPT does not reach the
  caller.\<close>

lemma runner_never_noscript:
  assumes "LUA_SCRIPTS scriptName = Some script"
    and "flushes (client c) = []"
    and "fst (evalWithFallback scriptName keys args c) = Inl e"
  shows "\<not> message_includes e ''NOSCRIPT''"
proof
  assume "message_includes e ''NOSCRIPT''"
  from runner_noscript [OF assms(1,3) this] obtain sha err r1 r2 where
    first: "client_evalsha sha keys args (client c) = (Inl err, r1)"
    and load: "client_script_load script r1 = (Inr (sha1hex script), r2)"
    and lost: "script_cache (arrive r2) (sha1hex script) = None"
    by blast
  from client_evalsha_quiet [OF assms(2), of sha keys args] first have "flushes r1 = []"
    by simp
  from client_script_load_quiet [OF this, of script] load have "flushes r2 = []"
    by simp
  then have "arrive r2 = r2"
    by (rule arrive_quiet)
  with client_script_load_result(2) [OF load] lost show False
    by simp
qed

lemma loaded_client:
  "scriptShas (loadScriptShas fresh_client) =
     [''rateLimit'' \<mapsto> ''sha1:rate-limit.lua'', ''tokenBucket'' \<mapsto> ''sha1:token-bucket.lua'',
      ''slidingWindow'' \<mapsto> ''sha1:sliding-window.lua'', ''leakyBucket'' \<mapsto> ''sha1:leaky-bucket.lua'']"
  "keyspace (client (loadScriptShas fresh_client)) = Map.empty"
  "issued (client (loadScriptShas fresh_client)) =
     [SCRIPT_LOAD RateLimitScript, SCRIPT_LOAD TokenBucketScript,
      SCRIPT_LOAD SlidingWindowScript, SCRIPT_LOAD LeakyBucketScript]"
  "faults (client (loadScriptShas fresh_client)) = []"
  "flushes (client (loadScriptShas fresh_client)) = []"
  "script_cache (client (loadScriptShas fresh_client)) =
     [''sha1:rate-limit.lua'' \<mapsto> RateLimitScript, ''sha1:token-bucket.lua'' \<mapsto> TokenBucketScript,
      ''sha1:sliding-window.lua'' \<mapsto> SlidingWindowScript, ''sha1:leaky-bucket.lua'' \<mapsto> LeakyBucketScript]"
  by (simp_all add: loadScriptShas_def client_defs)

lemma flushed_client_fields:
  "scriptShas flushed_client = scriptShas (loadScriptShas fresh_client)"
  "keyspace (client flushed_client) = Map.empty"
  "script_cache (client flushed_client) = Map.empty"
  "faults (client flushed_client) = []"
  "flushes (client flushed_client) = []"
  "issued (client flushed_client) = issued (client (loadScriptShas fresh_client))"
  by (simp_all add: flushed_client_def script_flush_def loaded_client)

lemmas witness_defs = client_evalsha_def client_script_load_def client_eval_def issue_def
  arrive_def run_on_def run_script_def token_args_def NOSCRIPT_def script_defs command_defs
  rat_eval double_eval Let_def

text \<open>The run in which the store loses its script cache a second time, between the
  reload and the retry.\<close>

lemma racing_run:
  "fst (evalWithFallback ''tokenBucket'' [''k''] token_args racing_client) = Inl NOSCRIPT"
  "issued (client (snd (evalWithFallback ''tokenBucket'' [''k''] token_args racing_client))) =
     [SCRIPT_LOAD RateLimitScript, SCRIPT_LOAD TokenBucketScript,
      SCRIPT_LOAD SlidingWindowScript, SCRIPT_LOAD LeakyBucketScript,
      EVALSHA ''sha1:token-bucket.lua'' [''k''] token_args,
      SCRIPT_LOAD TokenBucketScript,
      EVALSHA ''sha1:token-bucket.lua'' [''k''] token_args]"
  "keyspace (client (snd (evalWithFallback ''tokenBucket'' [''k''] token_args racing_client))) =
     Map.empty"
proof -
  have rc: "scriptShas racing_client = scriptShas (loadScriptShas fresh_client)"
    "keyspace (client racing_client) = Map.empty"
    "script_cache (client racing_client) = Map.empty"
    "faults (client racing_client) = []"
    "flushes (client racing_client) = [False, False, True]"
    "issued (client racing_client) = issued (client (loadScriptShas fresh_client))"
    by (simp_all add: racing_client_def flushed_client_fields)
  have sha: "cached_sha racing_client ''tokenBucket'' = Some ''sha1:token-bucket.lua''"
    by (simp add: cached_sha_def rc loaded_client)
  have src: "LUA_SCRIPTS ''tokenBucket'' = Some TokenBucketScript"
    by (simp add: LUA_SCRIPTS_def)
  have m: "message_includes NOSCRIPT ''NOSCRIPT''"
    by (simp add: NOSCRIPT_def)
  show "fst (evalWithFallback ''tokenBucket'' [''k''] token_args racing_client) = Inl NOSCRIPT"
    by (simp add: evalWithFallback_def sha src m client_evalsha_def client_script_load_def
        issue_def arrive_def rc)
  show "issued (client (snd (evalWithFallback ''tokenBucket'' [''k''] token_args racing_client))) =
     [SCRIPT_LOAD RateLimitScript, SCRIPT_LOAD TokenBucketScript,
      SCRIPT_LOAD SlidingWindowScript, SCRIPT_LOAD LeakyBucketScript,
      EVALSHA ''sha1:token-bucket.lua'' [''k''] token_args,
      SCRIPT_LOAD TokenBucketScript,
      EVALSHA ''sha1:token-bucket.lua'' [''k''] token_args]"
    by (simp add: evalWithFallback_def sha src m client_evalsha_def client_script_load_def
        issue_def arrive_def rc loaded_client)
  show "keyspace (client (snd (evalWithFallback ''tokenBucket'' [''k''] token_args racing_client))) =
     Map.empty"
    by (simp add: evalWithFallback_def sha src m client_evalsha_def client_script_load_def
        issue_def arrive_def rc)
qed

text \<open>
  Claim C5 ends with \<open>the NOSCRIPT condition never surfaced\<close>. That fails on the code:
  \<open>evalWithFallback\<close> catches the error of its first \<open>EVALSHA\<close> only, and the retry that
  follows \<open>SCRIPT LOAD\<close> stands in the handler unguarded. On a store that loses its script
  cache a second time between the reload and the retry (a \<open>SCRIPT FLUSH\<close> of another
  client, a restart), the retry is answered with NOSCRIPT and the caller gets that
  error; the script has not run.
\<close>

theorem retry_surfaces_noscript:
  "LUA_SCRIPTS ''tokenBucket'' = Some TokenBucketScript
   \<and> fst (evalWithFallback ''tokenBucket'' [''k''] token_args racing_client) = Inl NOSCRIPT
   \<and> message_includes NOSCRIPT ''NOSCRIPT''
   \<and> issued (client (snd (evalWithFallback ''tokenBucket'' [''k''] token_args racing_client))) =
       [SCRIPT_LOAD RateLimitScript, SCRIPT_LOAD TokenBucketScript,
        SCRIPT_LOAD SlidingWindowScript, SCRIPT_LOAD LeakyBucketScript,
        EVALSHA ''sha1:token-bucket.lua'' [''k''] token_args,
        SCRIPT_LOAD TokenBucketScript,
        EVALSHA ''sha1:token-bucket.lua'' [''k''] token_args]
   \<and> keyspace (client (snd (evalWithFallback ''tokenBucket'' [''k''] token_args racing_client))) =
       Map.empty"
proof -
  have "LUA_SCRIPTS ''tokenBucket'' = Some TokenBucketScript"
    by (simp add: LUA_SCRIPTS_def)
  moreover have "message_includes NOSCRIPT ''NOSCRIPT''"
    by (simp add: NOSCRIPT_def)
  ultimately show ?thesis
    using racing_run by (intro conjI)
qed

text \<open>
  Claim C5 as amended. The script runner's protocol, for every script of the registry,
  every key list and argument list. (1) When a digest is cached the runner evaluates by
  digest: the first command it issues is \<open>EVALSHA\<close> with that digest, and a successful
  reply is returned. (2) When the store answers NOSCRIPT the runner reloads the source
  with \<open>SCRIPT LOAD\<close>, stores the new digest in its table and retries \<open>EVALSHA\<close> exactly
  once: the commands issued are \<open>EVALSHA\<close>, \<open>SCRIPT LOAD\<close>, \<open>EVALSHA\<close>, and the outcome of
  the retry is the outcome of the call. (3) When no digest is cached the runner
  evaluates the source with \<open>EVAL\<close>, and nothing else. (4) An error of the store other
  than NOSCRIPT, from the first \<open>EVALSHA\<close> or from the reload, is returned unchanged. (5)
  A NOSCRIPT answer to the first \<open>EVALSHA\<close> is never surfaced; the retry is not guarded,
  and NOSCRIPT reaches the caller in one case only: it answers the retry, the store
  having lost the digest between the reload and the retry. (6) On a store whose script
  cache nobody else touches during the call, the error returned is never NOSCRIPT.
\<close>

theorem evalWithFallback_protocol:
  "(cached_sha c scriptName = Some sha
      \<and> client_evalsha sha keys args (client c) = (Inr result, r1)
    \<longrightarrow> evalWithFallback scriptName keys args c = (Inr result, c\<lparr>client := r1\<rparr>)
        \<and> issued r1 = issued (client c) @ [EVALSHA sha keys args])
   \<and> (cached_sha c scriptName = Some sha
      \<and> client_evalsha sha keys args (client c) = (Inl err, r1)
      \<and> message_includes err ''NOSCRIPT''
      \<and> LUA_SCRIPTS scriptName = Some script
      \<and> client_script_load script r1 = (Inr newSha, r2)
      \<and> client_evalsha newSha keys args r2 = (res, r3)
    \<longrightarrow> evalWithFallback scriptName keys args c =
          (res, c\<lparr>scriptShas := (scriptShas c)(scriptName \<mapsto> newSha), client := r3\<rparr>)
        \<and> issued r3 = issued (client c) @
            [EVALSHA sha keys args, SCRIPT_LOAD script, EVALSHA newSha keys args])
   \<and> (cached_sha c scriptName = Some sha
      \<and> client_evalsha sha keys args (client c) = (Inl err, r1)
      \<and> message_includes err ''NOSCRIPT''
      \<and> LUA_SCRIPTS scriptName = Some script
      \<and> client_script_load script r1 = (Inl load_err, r2)
    \<longrightarrow> evalWithFallback scriptName keys args c = (Inl load_err, c\<lparr>client := r2\<rparr>)
        \<and> issued r2 = issued (client c) @ [EVALSHA sha keys args, SCRIPT_LOAD script])
   \<and> (cached_sha c scriptName = Some sha
      \<and> client_evalsha sha keys args (client c) = (Inl err, r1)
      \<and> \<not> message_includes err ''NOSCRIPT''
    \<longrightarrow> evalWithFallback scriptName keys args c = (Inl err, c\<lparr>client := r1\<rparr>)
        \<and> issued r1 = issued (client c) @ [EVALSHA sha keys args])
   \<and> (cached_sha c scriptName = None
      \<and> LUA_SCRIPTS scriptName = Some script
      \<and> client_eval script keys args (client c) = (res, r1)
    \<longrightarrow> evalWithFallback scriptName keys args c = (res, c\<lparr>client := r1\<rparr>)
        \<and> issued r1 = issued (client c) @ [EVAL script keys args])
   \<and> (LUA_SCRIPTS scriptName = Some script
      \<and> fst (evalWithFallback scriptName keys args c) = Inl e
      \<and> message_includes e ''NOSCRIPT''
    \<longrightarrow> (\<exists>sha err r1 r2.
           cached_sha c scriptName = Some sha
           \<and> client_evalsha sha keys args (client c) = (Inl err, r1)
           \<and> message_includes err ''NOSCRIPT''
           \<and> client_script_load script r1 = (Inr (sha1hex script), r2)
           \<and> fst (client_evalsha (sha1hex script) keys args r2) = Inl e
           \<and> script_cache (arrive r2) (sha1hex script) = None))
   \<and> (LUA_SCRIPTS scriptName = Some script
      \<and> flushes (client c) = []
      \<and> fst (evalWithFallback scriptName keys args c) = Inl e
    \<longrightarrow> \<not> message_includes e ''NOSCRIPT'')"
proof -
  have hit: "cached_sha c scriptName = Some sha
      \<and> client_evalsha sha keys args (client c) = (Inr result, r1)
    \<longrightarrow> evalWithFallback scriptName keys args c = (Inr result, c\<lparr>client := r1\<rparr>)
        \<and> issued r1 = issued (client c) @ [EVALSHA sha keys args]"
    using runner_hit [of c scriptName sha keys args result r1] by simp
  have reload: "cached_sha c scriptName = Some sha
      \<and> client_evalsha sha keys args (client c) = (Inl err, r1)
      \<and> message_includes err ''NOSCRIPT''
      \<and> LUA_SCRIPTS scriptName = Some script
      \<and> client_script_load script r1 = (Inr newSha, r2)
      \<and> client_evalsha newSha keys args r2 = (res, r3)
    \<longrightarrow> evalWithFallback scriptName keys args c =
          (res, c\<lparr>scriptShas := (scriptShas c)(scriptName \<mapsto> newSha), client := r3\<rparr>)
        \<and> issued r3 = issued (client c) @
            [EVALSHA sha keys args, SCRIPT_LOAD script, EVALSHA newSha keys args]"
    using runner_reload(1,2) [of c scriptName sha keys args err r1 script newSha r2 res r3]
    by simp
  have load_fails: "cached_sha c scriptName = Some sha
      \<and> client_evalsha sha keys args (client c) = (Inl err, r1)
      \<and> message_includes err ''NOSCRIPT''
      \<and> LUA_SCRIPTS scriptName = Some script
      \<and> client_script_load script r1 = (Inl load_err, r2)
    \<longrightarrow> evalWithFallback scriptName keys args c = (Inl load_err, c\<lparr>client := r2\<rparr>)
        \<and> issued r2 = issued (client c) @ [EVALSHA sha keys args, SCRIPT_LOAD script]"
    using runner_reload_fails [of c scriptName sha keys args err r1 script load_err r2] by simp
  have other: "cached_sha c scriptName = Some sha
      \<and> client_evalsha sha keys args (client c) = (Inl err, r1)
      \<and> \<not> message_includes err ''NOSCRIPT''
    \<longrightarrow> evalWithFallback scriptName keys args c = (Inl err, c\<lparr>client := r1\<rparr>)
        \<and> issued r1 = issued (client c) @ [EVALSHA sha keys args]"
    using runner_other_error [of c scriptName sha keys args err r1] by simp
  have direct: "cached_sha c scriptName = None
      \<and> LUA_SCRIPTS scriptName = Some script
      \<and> client_eval script keys args (client c) = (res, r1)
    \<longrightarrow> evalWithFallback scriptName keys args c = (res, c\<lparr>client := r1\<rparr>)
        \<and> issued r1 = issued (client c) @ [EVAL script keys args]"
    using runner_direct [of c scriptName script keys args res r1] by simp
  have retry: "LUA_SCRIPTS scriptName = Some script
      \<and> fst (evalWithFallback scriptName keys args c) = Inl e
      \<and> message_includes e ''NOSCRIPT''
    \<longrightarrow> (\<exists>sha err r1 r2.
           cached_sha c scriptName = Some sha
           \<and> client_evalsha sha keys args (client c) = (Inl err, r1)
           \<and> message_includes err ''NOSCRIPT''
           \<and> client_script_load script r1 = (Inr (sha1hex script), r2)
           \<and> fst (client_evalsha (sha1hex script) keys args r2) = Inl e
           \<and> script_cache (arrive r2) (sha1hex script) = None)"
    using runner_noscript [of scriptName script keys args c e] by simp
  have never: "LUA_SCRIPTS scriptName = Some script
      \<and> flushes (client c) = []
      \<and> fst (evalWithFallback scriptName keys args c) = Inl e
    \<longrightarrow> \<not> message_includes e ''NOSCRIPT''"
    using runner_never_noscript [of scriptName script c keys args e] by simp
  show ?thesis
    by (intro conjI hit reload load_fails other direct retry never)
qed

theorem evalWithFallback_protocol_witness:
  "(fst (evalWithFallback ''tokenBucket'' [''k''] token_args (loadScriptShas fresh_client)) =
      Inr [1, 9, 10000]
    \<and> issued (client (snd (evalWithFallback ''tokenBucket'' [''k''] token_args
                               (loadScriptShas fresh_client)))) =
       [SCRIPT_LOAD RateLimitScript, SCRIPT_LOAD TokenBucketScript,
        SCRIPT_LOAD SlidingWindowScript, SCRIPT_LOAD LeakyBucketScript,
        EVALSHA ''sha1:token-bucket.lua'' [''k''] token_args])
   \<and> (fst (evalWithFallback ''tokenBucket'' [''k''] token_args flushed_client) = Inr [1, 9, 10000]
    \<and> issued (client (snd (evalWithFallback ''tokenBucket'' [''k''] token_args flushed_client))) =
       [SCRIPT_LOAD RateLimitScript, SCRIPT_LOAD TokenBucketScript,
        SCRIPT_LOAD SlidingWindowScript, SCRIPT_LOAD LeakyBucketScript,
        EVALSHA ''sha1:token-bucket.lua'' [''k''] token_args,
        SCRIPT_LOAD TokenBucketScript,
        EVALSHA ''sha1:token-bucket.lua'' [''k''] token_args])
   \<and> (fst (evalWithFallback ''tokenBucket'' [''k''] token_args dropping_client) =
      Inl (Error ''Connection is closed.'')
    \<and> issued (client (snd (evalWithFallback ''tokenBucket'' [''k''] token_args dropping_client))) =
       [SCRIPT_LOAD RateLimitScript, SCRIPT_LOAD TokenBucketScript,
        SCRIPT_LOAD SlidingWindowScript, SCRIPT_LOAD LeakyBucketScript,
        EVALSHA ''sha1:token-bucket.lua'' [''k''] token_args,
        SCRIPT_LOAD TokenBucketScript])
   \<and> (fst (evalWithFallback ''tokenBucket'' [''k''] token_args counter_client) = Inl WRONGTYPE
    \<and> \<not> message_includes WRONGTYPE ''NOSCRIPT'')
   \<and> (fst (evalWithFallback ''tokenBucket'' [''k''] token_args fresh_client) = Inr [1, 9, 10000]
    \<and> issued (client (snd (evalWithFallback ''tokenBucket'' [''k''] token_args fresh_client))) =
       [EVAL TokenBucketScript [''k''] token_args])
   \<and> (\<exists>sha err r1 r2.
         cached_sha racing_client ''tokenBucket'' = Some sha
         \<and> client_evalsha sha [''k''] token_args (client racing_client) = (Inl err, r1)
         \<and> message_includes err ''NOSCRIPT''
         \<and> client_script_load TokenBucketScript r1 = (Inr (sha1hex TokenBucketScript), r2)
         \<and> fst (client_evalsha (sha1hex TokenBucketScript) [''k''] token_args r2) = Inl NOSCRIPT
         \<and> script_cache (arrive r2) (sha1hex TokenBucketScript) = None)"
proof -
  let ?sha = "''sha1:token-bucket.lua''"
  let ?name = "''tokenBucket''"
  let ?keys = "[''k'']"
  have src: "LUA_SCRIPTS ?name = Some TokenBucketScript"
    by (simp add: LUA_SCRIPTS_def)
  \<comment> \<open>the digest is cached on both sides\<close>
  let ?c = "loadScriptShas fresh_client"
  let ?r1 = "snd (client_evalsha ?sha ?keys token_args (client ?c))"
  have a1: "cached_sha ?c ?name = Some ?sha"
    by (simp add: cached_sha_def loaded_client)
  have a2: "client_evalsha ?sha ?keys token_args (client ?c) = (Inr [1, 9, 10000], ?r1)"
    by (simp add: prod_eq_iff) (simp add: witness_defs loaded_client)
  from evalWithFallback_protocol [where scriptName = ?name and sha = ?sha
      and keys = ?keys and args = token_args and script = TokenBucketScript and c = ?c and result = "[1, 9, 10000]" and ?r1.0 = ?r1] a1 a2
  have "evalWithFallback ?name ?keys token_args ?c = (Inr [1, 9, 10000], ?c\<lparr>client := ?r1\<rparr>)
        \<and> issued ?r1 = issued (client ?c) @ [EVALSHA ?sha ?keys token_args]"
    by blast
  then have hit: "fst (evalWithFallback ?name ?keys token_args ?c) = Inr [1, 9, 10000]
    \<and> issued (client (snd (evalWithFallback ?name ?keys token_args ?c))) =
       [SCRIPT_LOAD RateLimitScript, SCRIPT_LOAD TokenBucketScript,
        SCRIPT_LOAD SlidingWindowScript, SCRIPT_LOAD LeakyBucketScript,
        EVALSHA ?sha ?keys token_args]"
    by (simp add: loaded_client)
  \<comment> \<open>the store has lost its script cache\<close>
  let ?f1 = "snd (client_evalsha ?sha ?keys token_args (client flushed_client))"
  let ?f2 = "snd (client_script_load TokenBucketScript ?f1)"
  let ?f3 = "snd (client_evalsha ?sha ?keys token_args ?f2)"
  note fl = flushed_client_fields
  have b1: "cached_sha flushed_client ?name = Some ?sha"
    by (simp add: cached_sha_def fl loaded_client)
  have b2: "client_evalsha ?sha ?keys token_args (client flushed_client) = (Inl NOSCRIPT, ?f1)"
    by (simp add: prod_eq_iff) (simp add: client_evalsha_def issue_def arrive_def fl)
  have b3: "message_includes NOSCRIPT ''NOSCRIPT''"
    by (simp add: NOSCRIPT_def)
  have f1: "faults ?f1 = []" "script_cache ?f1 = Map.empty" "keyspace ?f1 = Map.empty"
    "flushes ?f1 = []"
    by (simp_all add: client_evalsha_def issue_def arrive_def fl)
  have b4: "client_script_load TokenBucketScript ?f1 = (Inr ?sha, ?f2)"
    by (simp add: prod_eq_iff) (simp add: client_script_load_def client_evalsha_def issue_def arrive_def fl)
  have f2: "faults ?f2 = []" "script_cache ?f2 ?sha = Some TokenBucketScript" "keyspace ?f2 = Map.empty"
    "flushes ?f2 = []"
    by (simp_all add: client_script_load_def client_evalsha_def issue_def arrive_def fl)
  have b5: "client_evalsha ?sha ?keys token_args ?f2 = (Inr [1, 9, 10000], ?f3)"
    by (simp add: prod_eq_iff) (simp add: witness_defs fl)
  from evalWithFallback_protocol [where scriptName = ?name and sha = ?sha
      and keys = ?keys and args = token_args and script = TokenBucketScript and c = flushed_client and err = NOSCRIPT and ?r1.0 = ?f1 and newSha = ?sha
      and ?r2.0 = ?f2 and res = "Inr [1, 9, 10000]" and ?r3.0 = ?f3] b1 b2 b3 src b4 b5
  have "evalWithFallback ?name ?keys token_args flushed_client =
          (Inr [1, 9, 10000],
           flushed_client\<lparr>scriptShas := (scriptShas flushed_client)(?name \<mapsto> ?sha), client := ?f3\<rparr>)
        \<and> issued ?f3 = issued (client flushed_client) @
            [EVALSHA ?sha ?keys token_args, SCRIPT_LOAD TokenBucketScript,
             EVALSHA ?sha ?keys token_args]"
    by blast
  then have reload: "fst (evalWithFallback ?name ?keys token_args flushed_client) = Inr [1, 9, 10000]
    \<and> issued (client (snd (evalWithFallback ?name ?keys token_args flushed_client))) =
       [SCRIPT_LOAD RateLimitScript, SCRIPT_LOAD TokenBucketScript,
        SCRIPT_LOAD SlidingWindowScript, SCRIPT_LOAD LeakyBucketScript,
        EVALSHA ?sha ?keys token_args, SCRIPT_LOAD TokenBucketScript,
        EVALSHA ?sha ?keys token_args]"
    by (simp add: fl loaded_client)
  \<comment> \<open>the connection drops before the reload\<close>
  let ?d1 = "snd (client_evalsha ?sha ?keys token_args (client dropping_client))"
  let ?d2 = "snd (client_script_load TokenBucketScript ?d1)"
  have dr: "scriptShas dropping_client = scriptShas ?c"
    "script_cache (client dropping_client) = Map.empty"
    "faults (client dropping_client) = [None, Some ConnectionClosed]"
    "flushes (client dropping_client) = []"
    "issued (client dropping_client) = issued (client ?c)"
    by (simp_all add: dropping_client_def fl)
  have c1: "cached_sha dropping_client ?name = Some ?sha"
    by (simp add: cached_sha_def dr loaded_client)
  have c2: "client_evalsha ?sha ?keys token_args (client dropping_client) = (Inl NOSCRIPT, ?d1)"
    by (simp add: prod_eq_iff) (simp add: client_evalsha_def issue_def arrive_def dr)
  have d1: "faults ?d1 = [Some ConnectionClosed]"
    by (simp add: client_evalsha_def issue_def arrive_def dr)
  have c4: "client_script_load TokenBucketScript ?d1 = (Inl (Error ''Connection is closed.''), ?d2)"
    by (simp add: prod_eq_iff) (simp add: client_script_load_def client_evalsha_def issue_def arrive_def dr)
  from evalWithFallback_protocol [where scriptName = ?name and sha = ?sha
      and keys = ?keys and args = token_args and script = TokenBucketScript and c = dropping_client and err = NOSCRIPT and ?r1.0 = ?d1
      and load_err = "Error ''Connection is closed.''" and ?r2.0 = ?d2] c1 c2 b3 src c4
  have "evalWithFallback ?name ?keys token_args dropping_client =
          (Inl (Error ''Connection is closed.''), dropping_client\<lparr>client := ?d2\<rparr>)
        \<and> issued ?d2 = issued (client dropping_client) @
            [EVALSHA ?sha ?keys token_args, SCRIPT_LOAD TokenBucketScript]"
    by blast
  then have drop: "fst (evalWithFallback ?name ?keys token_args dropping_client) =
      Inl (Error ''Connection is closed.'')
    \<and> issued (client (snd (evalWithFallback ?name ?keys token_args dropping_client))) =
       [SCRIPT_LOAD RateLimitScript, SCRIPT_LOAD TokenBucketScript,
        SCRIPT_LOAD SlidingWindowScript, SCRIPT_LOAD LeakyBucketScript,
        EVALSHA ?sha ?keys token_args, SCRIPT_LOAD TokenBucketScript]"
    by (simp add: dr loaded_client)
  \<comment> \<open>the key holds a counter: the script fails with WRONGTYPE\<close>
  let ?w1 = "snd (client_evalsha ?sha ?keys token_args (client counter_client))"
  have cc: "scriptShas counter_client = scriptShas ?c"
    "script_cache (client counter_client) = script_cache (client ?c)"
    "faults (client counter_client) = []"
    "flushes (client counter_client) = []"
    "keyspace (client counter_client) = [''k'' \<mapsto> (RString 1, None)]"
    by (simp_all add: counter_client_def loaded_client)
  have e1: "cached_sha counter_client ?name = Some ?sha"
    by (simp add: cached_sha_def cc loaded_client)
  have e2: "client_evalsha ?sha ?keys token_args (client counter_client) = (Inl WRONGTYPE, ?w1)"
    by (simp add: prod_eq_iff) (simp add: witness_defs cc loaded_client)
  have e3: "\<not> message_includes WRONGTYPE ''NOSCRIPT''"
    by (simp add: WRONGTYPE_def)
  from evalWithFallback_protocol [where scriptName = ?name and sha = ?sha
      and keys = ?keys and args = token_args and script = TokenBucketScript and c = counter_client and err = WRONGTYPE and ?r1.0 = ?w1] e1 e2 e3
  have "evalWithFallback ?name ?keys token_args counter_client =
          (Inl WRONGTYPE, counter_client\<lparr>client := ?w1\<rparr>)"
    by blast
  then have w: "fst (evalWithFallback ?name ?keys token_args counter_client) = Inl WRONGTYPE"
    by simp
  from evalWithFallback_protocol [where scriptName = ?name and keys = ?keys and args = token_args
      and script = TokenBucketScript and c = counter_client and e = WRONGTYPE] src cc(4) w
  have "\<not> message_includes WRONGTYPE ''NOSCRIPT''"
    by blast
  with w have wrong: "fst (evalWithFallback ?name ?keys token_args counter_client) = Inl WRONGTYPE
    \<and> \<not> message_includes WRONGTYPE ''NOSCRIPT''"
    by simp
  \<comment> \<open>no digest is cached\<close>
  let ?n1 = "snd (client_eval TokenBucketScript ?keys token_args (client fresh_client))"
  have g1: "cached_sha fresh_client ?name = None"
    by (simp add: cached_sha_def fresh_client_def)
  have g2: "client_eval TokenBucketScript ?keys token_args (client fresh_client) =
              (Inr [1, 9, 10000], ?n1)"
    by (simp add: prod_eq_iff) (simp add: witness_defs fresh_client_def fresh_server_def)
  from evalWithFallback_protocol [where scriptName = ?name and sha = ?sha
      and keys = ?keys and args = token_args and script = TokenBucketScript and c = fresh_client and res = "Inr [1, 9, 10000]" and ?r1.0 = ?n1] g1 src g2
  have "evalWithFallback ?name ?keys token_args fresh_client =
          (Inr [1, 9, 10000], fresh_client\<lparr>client := ?n1\<rparr>)
        \<and> issued ?n1 = issued (client fresh_client) @ [EVAL TokenBucketScript ?keys token_args]"
    by blast
  then have direct: "fst (evalWithFallback ?name ?keys token_args fresh_client) = Inr [1, 9, 10000]
    \<and> issued (client (snd (evalWithFallback ?name ?keys token_args fresh_client))) =
       [EVAL TokenBucketScript ?keys token_args]"
    by (simp add: fresh_client_def fresh_server_def)
  \<comment> \<open>the store loses its cache again before the retry\<close>
  from evalWithFallback_protocol [where scriptName = ?name and keys = ?keys and args = token_args
      and script = TokenBucketScript and c = racing_client and e = NOSCRIPT] src racing_run(1) b3
  have race: "\<exists>sha err r1 r2.
         cached_sha racing_client ?name = Some sha
         \<and> client_evalsha sha ?keys token_args (client racing_client) = (Inl err, r1)
         \<and> message_includes err ''NOSCRIPT''
         \<and> client_script_load TokenBucketScript r1 = (Inr (sha1hex TokenBucketScript), r2)
         \<and> fst (client_evalsha (sha1hex TokenBucketScript) ?keys token_args r2) = Inl NOSCRIPT
         \<and> script_cache (arrive r2) (sha1hex TokenBucketScript) = None"
    by blast
  from hit reload drop wrong direct race show ?thesis
    by (intro conjI) simp_all
qed

section \<open>The decision facade\<close>

text \<open>A call of the runner for a script of the registry issues at least one command.\<close>

lemma runner_issues:
  assumes "LUA_SCRIPTS scriptName = Some script"
  shows "\<exists>cmd cmds. issued (client (snd (evalWithFallback scriptName keys args c))) =
           issued (client c) @ cmd # cmds"
proof (cases "cached_sha c scriptName")
  case None
  obtain res r1 where ev: "client_eval script keys args (client c) = (res, r1)"
    by (cases "client_eval script keys args (client c)")
  from runner_direct [OF None assms ev] show ?thesis
    by simp
next
  case (Some sha)
  obtain res1 r1 where first: "client_evalsha sha keys args (client c) = (res1, r1)"
    by (cases "client_evalsha sha keys args (client c)")
  show ?thesis
  proof (cases res1)
    case (Inr result)
    with runner_hit [OF Some] first show ?thesis
      by simp
  next
    case (Inl err)
    then have f: "client_evalsha sha keys args (client c) = (Inl err, r1)"
      using first by simp
    show ?thesis
    proof (cases "message_includes err ''NOSCRIPT''")
      case False
      with runner_other_error [OF Some f] show ?thesis
        by simp
    next
      case True
      obtain res2 r2 where load: "client_script_load script r1 = (res2, r2)"
        by (cases "client_script_load script r1")
      show ?thesis
      proof (cases res2)
        case (Inl err2)
        with runner_reload_fails [OF Some f True assms] load show ?thesis
          by simp
      next
        case (Inr newSha)
        obtain res r3 where retry: "client_evalsha newSha keys args r2 = (res, r3)"
          by (cases "client_evalsha newSha keys args r2")
        from load Inr have l: "client_script_load script r1 = (Inr newSha, r2)"
          by simp
        from runner_reload(1,2) [OF Some f True assms l retry] show ?thesis
          by simp
      qed
    qed
  qed
qed

lemma unknown_strategy:
  assumes "strategy \<noteq> ''token_bucket''" and "strategy \<noteq> ''sliding_window''"
    and "strategy \<noteq> ''leaky_bucket''"
  shows "checkRateLimit key limit windowSeconds strategy now c =
           (Inl (Error (''Unknown strategy: '' @ strategy)), c)"
  using assms by (simp add: checkRateLimit_def)

lemma no_validation:
  assumes "strategy = ''token_bucket'' \<or> strategy = ''sliding_window''"
  shows "\<exists>cmd cmds. issued (client (snd (checkRateLimit key limit windowSeconds strategy now c))) =
           issued (client c) @ cmd # cmds"
  using assms
proof
  assume s: "strategy = ''token_bucket''"
  have src: "LUA_SCRIPTS ''tokenBucket'' = Some TokenBucketScript"
    by (simp add: LUA_SCRIPTS_def)
  from runner_issues [OF src, of "[key]" "[ANum (of_int limit), ANum (of_int windowSeconds), ANum (of_int now)]" c]
  show ?thesis
    by (auto simp: s checkRateLimit_def tokenBucket_def split: prod.splits sum.splits)
next
  assume s: "strategy = ''sliding_window''"
  have src: "LUA_SCRIPTS ''slidingWindow'' = Some SlidingWindowScript"
    by (simp add: LUA_SCRIPTS_def)
  from runner_issues [OF src, of "[key]" "[ANum (of_int limit), ANum (of_int (now - windowSeconds * 1000)),
      ANum (of_int now), ANum (of_int (windowSeconds * 1000))]" c]
  show ?thesis
    by (auto simp: s checkRateLimit_def slidingWindow_def Let_def split: prod.splits sum.splits)
qed

text \<open>
  Claim C6 says that \<open>checkRateLimit\<close> fails with a configuration error, without touching
  the store, for an unknown strategy and likewise for a non-positive \<open>limit\<close> or
  \<open>windowSeconds\<close>. The second half fails on the code: \<open>checkRateLimit\<close> and the three
  limiters validate no number. With \<open>limit = 0\<close> the token bucket is evaluated on the
  store, a record with \<open>tokens = 0\<close> is written and a verdict is returned; with
  \<open>windowSeconds = -1\<close> the sliding window is evaluated and admits the call.
\<close>

theorem nonpositive_quota_reaches_store:
  "fst (checkRateLimit ''k'' 0 10 ''token_bucket'' 7 fresh_client) =
     Inr \<lparr>allowed = False, remaining = 0, resetAt = 10007\<rparr>
   \<and> issued (client (snd (checkRateLimit ''k'' 0 10 ''token_bucket'' 7 fresh_client))) =
     [EVAL TokenBucketScript [''k''] [ANum 0, ANum 10, ANum 7]]
   \<and> hash_field (keyspace (client (snd (checkRateLimit ''k'' 0 10 ''token_bucket'' 7 fresh_client))))
        ''k'' ''tokens'' = Some 0
   \<and> hash_field (keyspace (client fresh_client)) ''k'' ''tokens'' = None
   \<and> fst (checkRateLimit ''k'' 3 (- 1) ''sliding_window'' 7 fresh_client) =
     Inr \<lparr>allowed = True, remaining = 2, resetAt = - 993\<rparr>
   \<and> issued (client (snd (checkRateLimit ''k'' 3 (- 1) ''sliding_window'' 7 fresh_client))) =
     [EVAL SlidingWindowScript [''k''] [ANum 3, ANum 1007, ANum 7, ANum (- 1000)]]"
  by (simp add: client_defs script_defs command_defs rat_eval double_eval Let_def hash_field_def)

text \<open>
  Claim C6 as amended. \<open>checkRateLimit\<close> fails with the error \<open>Unknown strategy: ...\<close> and
  performs no store interaction, leaving all state unchanged, whenever the strategy is
  not one of \<open>token_bucket\<close>, \<open>sliding_window\<close>, \<open>leaky_bucket\<close>. \<open>limit\<close> and
  \<open>windowSeconds\<close> are not validated: with the strategy \<open>token_bucket\<close> or
  \<open>sliding_window\<close> the call issues a command to the store whatever their values are.
\<close>

theorem unknown_strategy_rejected:
  "(strategy \<noteq> ''token_bucket'' \<and> strategy \<noteq> ''sliding_window'' \<and> strategy \<noteq> ''leaky_bucket''
      \<longrightarrow> checkRateLimit key limit windowSeconds strategy now c =
            (Inl (Error (''Unknown strategy: '' @ strategy)), c))
   \<and> (strategy = ''token_bucket'' \<or> strategy = ''sliding_window''
      \<longrightarrow> (\<exists>cmd cmds. issued (client (snd (checkRateLimit key limit windowSeconds strategy now c))) =
             issued (client c) @ cmd # cmds))"
  using unknown_strategy [of strategy key limit windowSeconds now c]
    no_validation [of strategy key limit windowSeconds now c]
  by simp

theorem unknown_strategy_rejected_witness:
  "checkRateLimit ''k'' 10 10 ''fixed_window'' 0 counter_client =
     (Inl (Error ''Unknown strategy: fixed_window''), counter_client)
   \<and> (\<exists>cmd cmds. issued (client (snd (checkRateLimit ''k'' (- 5) 0 ''token_bucket'' 0 fresh_client))) =
        issued (client fresh_client) @ cmd # cmds)"
  using unknown_strategy_rejected [of "''fixed_window''" "''k''" 10 10 0 counter_client]
    unknown_strategy_rejected [of "''token_bucket''" "''k''" "- 5" 0 0 fresh_client]
  by simp

section \<open>The quota inspector\<close>

lemma client_zcard_ok:
  assumes "next_fault r = None"
  shows "fst (client_zcard key r) = redis_zcard key (keyspace r)"
  using assms
  by (auto simp: client_zcard_def issue_def next_fault_def arrive_fields
      split: list.splits option.splits)

lemma client_hgetall_ok:
  assumes "next_fault r = None"
  shows "fst (client_hgetall key r) = redis_hgetall key (keyspace r)"
  using assms
  by (auto simp: client_hgetall_def issue_def next_fault_def arrive_fields
      split: list.splits option.splits)

lemma quota_sliding:
  "fst (getQuotaStatus key ''sliding_window'' c) =
     (case fst (client_zcard key (client c)) of
        Inr count \<Rightarrow> \<lparr>quota_remaining = count, quota_total = count\<rparr>
      | Inl e \<Rightarrow> \<lparr>quota_remaining = 0, quota_total = 0\<rparr>)"
  by (simp add: getQuotaStatus_def split: prod.splits sum.splits)

lemma quota_other:
  assumes "strategy \<noteq> ''sliding_window''"
  shows "fst (getQuotaStatus key strategy c) =
     (case fst (client_hgetall key (client c)) of
        Inr data \<Rightarrow>
          \<lparr>quota_remaining = \<lfloor>case data ''tokens'' of Some t \<Rightarrow> t | None \<Rightarrow> 0\<rfloor>,
           quota_total = \<lfloor>case data ''tokens'' of Some t \<Rightarrow> t | None \<Rightarrow> 0\<rfloor>\<rparr>
      | Inl e \<Rightarrow> \<lparr>quota_remaining = 0, quota_total = 0\<rparr>)"
  using assms by (simp add: getQuotaStatus_def Let_def split: prod.splits sum.splits)

text \<open>
  Claim C8. \<open>getQuotaStatus\<close> never throws (its result is a quota, for every key and
  strategy string): for the strategy \<open>sliding_window\<close> both fields are the cardinality
  of the sorted set; for any other strategy both are the floor of the hash field
  \<open>tokens\<close>, an absent field read as 0; an absent key gives zeros; and whenever the
  store operation fails (a key of the wrong type, a connection fault) the result is
  \<open>{0, 0}\<close>.
\<close>

theorem getQuotaStatus_never_throws:
  "(strategy = ''sliding_window'' \<and> next_fault (client c) = None
      \<and> keyspace (client c) key = Some (RZSet z, t)
    \<longrightarrow> fst (getQuotaStatus key strategy c) =
          \<lparr>quota_remaining = int (length z), quota_total = int (length z)\<rparr>)
   \<and> (strategy \<noteq> ''sliding_window'' \<and> next_fault (client c) = None
      \<and> keyspace (client c) key = Some (RHash h, t)
    \<longrightarrow> fst (getQuotaStatus key strategy c) =
          \<lparr>quota_remaining = \<lfloor>case h ''tokens'' of Some x \<Rightarrow> x | None \<Rightarrow> 0\<rfloor>,
           quota_total = \<lfloor>case h ''tokens'' of Some x \<Rightarrow> x | None \<Rightarrow> 0\<rfloor>\<rparr>)
   \<and> (next_fault (client c) = None \<and> keyspace (client c) key = None
    \<longrightarrow> fst (getQuotaStatus key strategy c) = \<lparr>quota_remaining = 0, quota_total = 0\<rparr>)
   \<and> (strategy = ''sliding_window'' \<and> fst (client_zcard key (client c)) = Inl e
    \<longrightarrow> fst (getQuotaStatus key strategy c) = \<lparr>quota_remaining = 0, quota_total = 0\<rparr>)
   \<and> (strategy \<noteq> ''sliding_window'' \<and> fst (client_hgetall key (client c)) = Inl e
    \<longrightarrow> fst (getQuotaStatus key strategy c) = \<lparr>quota_remaining = 0, quota_total = 0\<rparr>)"
proof -
  have zs: "strategy = ''sliding_window'' \<and> next_fault (client c) = None
      \<and> keyspace (client c) key = Some (RZSet z, t)
    \<longrightarrow> fst (getQuotaStatus key strategy c) =
          \<lparr>quota_remaining = int (length z), quota_total = int (length z)\<rparr>"
    by (simp add: quota_sliding client_zcard_ok redis_zcard_def)
  have hs: "strategy \<noteq> ''sliding_window'' \<and> next_fault (client c) = None
      \<and> keyspace (client c) key = Some (RHash h, t)
    \<longrightarrow> fst (getQuotaStatus key strategy c) =
          \<lparr>quota_remaining = \<lfloor>case h ''tokens'' of Some x \<Rightarrow> x | None \<Rightarrow> 0\<rfloor>,
           quota_total = \<lfloor>case h ''tokens'' of Some x \<Rightarrow> x | None \<Rightarrow> 0\<rfloor>\<rparr>"
    by (simp add: quota_other client_hgetall_ok redis_hgetall_def)
  have ab: "next_fault (client c) = None \<and> keyspace (client c) key = None
    \<longrightarrow> fst (getQuotaStatus key strategy c) = \<lparr>quota_remaining = 0, quota_total = 0\<rparr>"
    by (cases "strategy = ''sliding_window''")
      (simp_all add: quota_sliding quota_other client_zcard_ok client_hgetall_ok
        redis_zcard_def redis_hgetall_def)
  have ze: "strategy = ''sliding_window'' \<and> fst (client_zcard key (client c)) = Inl e
    \<longrightarrow> fst (getQuotaStatus key strategy c) = \<lparr>quota_remaining = 0, quota_total = 0\<rparr>"
    by (simp add: quota_sliding)
  have he: "strategy \<noteq> ''sliding_window'' \<and> fst (client_hgetall key (client c)) = Inl e
    \<longrightarrow> fst (getQuotaStatus key strategy c) = \<lparr>quota_remaining = 0, quota_total = 0\<rparr>"
    by (simp add: quota_other)
  show ?thesis
    by (intro conjI zs hs ab ze he)
qed


theorem getQuotaStatus_never_throws_witness:
  "fst (getQuotaStatus ''k'' ''sliding_window''
          (bucket_client (RZSet [(0, 0), (200, 200), (400, 400)]))) =
     \<lparr>quota_remaining = 3, quota_total = 3\<rparr>
   \<and> fst (getQuotaStatus ''k'' ''token_bucket''
          (bucket_client (RHash [''tokens'' \<mapsto> 15 / 2, ''last_refill'' \<mapsto> 0]))) =
     \<lparr>quota_remaining = 7, quota_total = 7\<rparr>
   \<and> fst (getQuotaStatus ''other'' ''token_bucket''
          (bucket_client (RHash [''tokens'' \<mapsto> 15 / 2, ''last_refill'' \<mapsto> 0]))) =
     \<lparr>quota_remaining = 0, quota_total = 0\<rparr>
   \<and> fst (getQuotaStatus ''k'' ''sliding_window''
          (bucket_client (RHash [''tokens'' \<mapsto> 15 / 2, ''last_refill'' \<mapsto> 0]))) =
     \<lparr>quota_remaining = 0, quota_total = 0\<rparr>
   \<and> fst (getQuotaStatus ''k'' ''token_bucket''
          (bucket_client (RZSet [(0, 0), (200, 200), (400, 400)]))) =
     \<lparr>quota_remaining = 0, quota_total = 0\<rparr>"
  using getQuotaStatus_never_throws [where strategy = "''sliding_window''" and key = "''k''"
      and c = "bucket_client (RZSet [(0, 0), (200, 200), (400, 400)])"
      and z = "[(0, 0), (200, 200), (400, 400)]" and t = None]
    getQuotaStatus_never_throws [where strategy = "''token_bucket''" and key = "''k''"
      and c = "bucket_client (RHash [''tokens'' \<mapsto> 15 / 2, ''last_refill'' \<mapsto> 0])"
      and h = "[''tokens'' \<mapsto> 15 / 2, ''last_refill'' \<mapsto> 0]" and t = None]
    getQuotaStatus_never_throws [where strategy = "''token_bucket''" and key = "''other''"
      and c = "bucket_client (RHash [''tokens'' \<mapsto> 15 / 2, ''last_refill'' \<mapsto> 0])"]
    getQuotaStatus_never_throws [where strategy = "''sliding_window''" and key = "''k''"
      and c = "bucket_client (RHash [''tokens'' \<mapsto> 15 / 2, ''last_refill'' \<mapsto> 0])"
      and e = WRONGTYPE]
    getQuotaStatus_never_throws [where strategy = "''token_bucket''" and key = "''k''"
      and c = "bucket_client (RZSet [(0, 0), (200, 200), (400, 400)])"
      and e = WRONGTYPE]
  by (simp add: bucket_client_def fresh_client_def fresh_server_def next_fault_def
      client_zcard_def client_hgetall_def issue_def arrive_def redis_zcard_def redis_hgetall_def
      rat_eval)

section \<open>The sliding window\<close>

lemma window_record_cases:
  assumes "window_record s key"
  obtains "s key = None" | z t where "s key = Some (RZSet z, t)"
  using assms by (auto simp: window_record_def split: option.splits rvalue.splits prod.splits)

lemma evict_record:
  assumes "window_record s key"
  shows "redis_zremrangebyscore key 0 hi s = Inr (evicted key hi s)"
    and "window_record (evicted key hi s) key"
    and "members (evicted key hi s) key = filter (\<lambda>p. \<not> in_range 0 hi p) (members s key)"
  using assms
  by (auto simp: evicted_def redis_zremrangebyscore_def window_record_def members_def
      split: option.splits rvalue.splits prod.splits list.splits)

lemma evict_scores:
  assumes "window_record s key" and "\<forall>p \<in> set (members s key). 0 \<le> snd p"
  shows "\<forall>p \<in> set (members (evicted key hi s) key). hi < snd p"
  using assms(2) by (auto simp: evict_record(3) [OF assms(1)] in_range_def)

lemma zcard_record:
  assumes "window_record s key"
  shows "redis_zcard key s = Inr (int (length (members s key)))"
  using assms
  by (auto simp: redis_zcard_def window_record_def members_def
      split: option.splits rvalue.splits prod.splits)

lemma zadd_record:
  assumes "window_record s key"
  obtains s2 where "redis_zadd key score member s = Inr s2"
    and "members s2 key = zset_add score member (members s key)"
    and "\<exists>z t. s2 key = Some (RZSet z, t)"
  using assms
  by (auto simp: redis_zadd_def window_record_def members_def
      split: option.splits rvalue.splits prod.splits)

lemma expire_record:
  fixes n :: int
  assumes "0 < n"
  obtains s3 where "redis_expire key (of_int n) s = Inr s3" and "members s3 key = members s key"
proof (cases "s key")
  case None
  then have "redis_expire key (of_int n) s = Inr s"
    by (simp add: redis_expire_def is_integer_of_int)
  then show ?thesis
    using that by simp
next
  case (Some vt)
  obtain v t where vt: "vt = (v, t)"
    by (cases vt)
  have "redis_expire key (of_int n) s = Inr (s(key \<mapsto> (v, Some (n * 1000))))"
    using Some vt assms by (simp add: redis_expire_def is_integer_of_int)
  moreover have "members (s(key \<mapsto> (v, Some (n * 1000)))) key = members s key"
    using Some vt by (simp add: members_def)
  ultimately show ?thesis
    using that by simp
qed

lemma length_zset_add: "length (zset_add score member z) \<le> length z + 1"
  by (induction z) auto

lemma window_ceiling:
  fixes windowSeconds :: int
  shows "\<lceil>(of_int (windowSeconds * 1000) :: rat) / 1000\<rceil> = windowSeconds"
  by simp

lemma sliding_window_lua_run:
  fixes window_start limit now window_ms :: rat
  assumes "window_record s key" and "0 < \<lceil>window_ms / 1000\<rceil>"
  defines "s1 \<equiv> evicted key window_start s"
  defines "cur \<equiv> int (length (members s1 key))"
  shows "fst (sliding_window_lua key limit window_start now window_ms s) =
           Inr (lua_reply [if of_int cur < limit then 1 else 0,
                           max 0 (limit - of_int (if of_int cur < limit then cur + 1 else cur)),
                           now + window_ms])"
    and "members (snd (sliding_window_lua key limit window_start now window_ms s)) key =
           (if of_int cur < limit then zset_add now now (members s1 key) else members s1 key)"
proof -
  have ev: "redis_zremrangebyscore key 0 window_start s = Inr s1"
    unfolding s1_def using assms(1) by (rule evict_record)
  have rec1: "window_record s1 key"
    unfolding s1_def using assms(1) by (rule evict_record)
  have card: "redis_zcard key s1 = Inr cur"
    unfolding cur_def using rec1 by (rule zcard_record)
  obtain s2 where add: "redis_zadd key now now s1 = Inr s2"
    and m2: "members s2 key = zset_add now now (members s1 key)"
    using rec1 by (rule zadd_record)
  obtain s3 where ex: "redis_expire key (of_int \<lceil>window_ms / 1000\<rceil>) s2 = Inr s3"
    and m3: "members s3 key = members s2 key"
    using assms(2) by (rule expire_record)
  obtain s3' where ex': "redis_expire key (of_int \<lceil>window_ms / 1000\<rceil>) s1 = Inr s3'"
    and m3': "members s3' key = members s1 key"
    using assms(2) by (rule expire_record)
  show "fst (sliding_window_lua key limit window_start now window_ms s) =
           Inr (lua_reply [if of_int cur < limit then 1 else 0,
                           max 0 (limit - of_int (if of_int cur < limit then cur + 1 else cur)),
                           now + window_ms])"
    by (simp add: sliding_window_lua_def ev card add ex ex')
  show "members (snd (sliding_window_lua key limit window_start now window_ms s)) key =
           (if of_int cur < limit then zset_add now now (members s1 key) else members s1 key)"
    by (simp add: sliding_window_lua_def ev card add ex ex' m2 m3 m3')
qed

lemma sliding_window_run:
  fixes limit windowSeconds now :: int
  assumes "0 < windowSeconds" and "window_record s key"
  defines "windowMs \<equiv> windowSeconds * 1000"
  defines "s1 \<equiv> evicted key (of_int (now - windowMs)) s"
  defines "cur \<equiv> int (length (members s1 key))"
  shows "fst (sliding_window_lua key (of_int limit) (of_int (now - windowMs)) (of_int now)
                (of_int windowMs) s) =
           Inr [if cur < limit then 1 else 0,
                max 0 (limit - (if cur < limit then cur + 1 else cur)),
                now + windowMs]"
    and "members (snd (sliding_window_lua key (of_int limit) (of_int (now - windowMs)) (of_int now)
                (of_int windowMs) s)) key =
           (if cur < limit then zset_add (of_int now) (of_int now) (members s1 key)
            else members s1 key)"
proof -
  have ce: "0 < \<lceil>(of_int windowMs :: rat) / 1000\<rceil>"
    unfolding windowMs_def using assms(1) by (simp only: window_ceiling)
  note run = sliding_window_lua_run [OF assms(2) ce, where window_start = "of_int (now - windowMs)"
      and limit = "of_int limit" and now = "of_int now",
      folded s1_def, folded cur_def]
  have lt: "(of_int cur < (of_int limit :: rat)) = (cur < limit)"
    by simp
  have reply: "lua_reply [a, max 0 (of_int limit - of_int c), of_int now + of_int windowMs] =
      [lua_to_integer a, max 0 (limit - c), now + windowMs]" for a c
  proof -
    have m: "max 0 (of_int limit - of_int c :: rat) = of_int (max 0 (limit - c))"
      by (simp add: of_int_max)
    have n: "(of_int now + of_int windowMs :: rat) = of_int (now + windowMs)"
      by simp
    show ?thesis
      unfolding m n lua_reply_def by (simp only: list.map lua_to_integer_of_int)
  qed
  have z: "lua_to_integer 0 = 0" "lua_to_integer 1 = 1"
    by (simp_all add: lua_to_integer_def)
  show "fst (sliding_window_lua key (of_int limit) (of_int (now - windowMs)) (of_int now)
                (of_int windowMs) s) =
           Inr [if cur < limit then 1 else 0,
                max 0 (limit - (if cur < limit then cur + 1 else cur)),
                now + windowMs]"
    unfolding run(1) lt reply by (simp only: z if_distrib [of lua_to_integer])
  show "members (snd (sliding_window_lua key (of_int limit) (of_int (now - windowMs)) (of_int now)
                (of_int windowMs) s)) key =
           (if cur < limit then zset_add (of_int now) (of_int now) (members s1 key)
            else members s1 key)"
    unfolding run(2) lt by (rule refl)
qed


lemma set_zset_add: "set (zset_add score member z) \<subseteq> insert (member, score) (set z)"
  by (induction z) auto

text \<open>
  Claim C7. On every sliding-window decision, with the arguments the wrapper passes
  (\<open>window_start = now - windowMs\<close>, \<open>windowMs = windowSeconds * 1000\<close>,
  \<open>windowSeconds > 0\<close>), on a key that is absent or holds a sorted set whose scores are
  timestamps (not negative): after the eviction step every element has a score above
  \<open>now - windowMs\<close>, hence at least \<open>now - windowMs\<close>; \<open>ZADD now now\<close> is run exactly when
  the cardinality after eviction is below \<open>limit\<close>; after an admitted insertion the
  cardinality is at most \<open>limit\<close>; the reply is \<open>{allowed, max(0, limit - current), now +
  windowMs}\<close>; and with \<open>now \<ge> 0\<close> the scores stay non-negative.
\<close>

theorem sliding_window_invariant:
  fixes limit windowSeconds now :: int
  assumes "0 < windowSeconds"
    and "window_record s key"
    and "\<forall>p \<in> set (members s key). 0 \<le> snd p"
  defines "windowMs \<equiv> windowSeconds * 1000"
  defines "s1 \<equiv> evicted key (of_int (now - windowMs)) s"
  defines "cur \<equiv> int (length (members s1 key))"
  defines "result \<equiv> sliding_window_lua key (of_int limit) (of_int (now - windowMs)) (of_int now)
                      (of_int windowMs) s"
  shows "redis_zremrangebyscore key 0 (of_int (now - windowMs)) s = Inr s1
       \<and> (\<forall>p \<in> set (members s1 key). of_int (now - windowMs) < snd p)
       \<and> members (snd result) key =
           (if cur < limit then zset_add (of_int now) (of_int now) (members s1 key)
            else members s1 key)
       \<and> (cur < limit \<longrightarrow> int (length (members (snd result) key)) \<le> limit)
       \<and> fst result =
           Inr [if cur < limit then 1 else 0,
                max 0 (limit - (if cur < limit then cur + 1 else cur)),
                now + windowMs]
       \<and> (0 \<le> now \<longrightarrow> (\<forall>p \<in> set (members (snd result) key). 0 \<le> snd p))"
proof -
  have ev: "redis_zremrangebyscore key 0 (of_int (now - windowMs)) s = Inr s1"
    unfolding s1_def using assms(2) by (rule evict_record)
  have scores: "\<forall>p \<in> set (members s1 key). of_int (now - windowMs) < snd p"
    unfolding s1_def using assms(2,3) by (rule evict_scores)
  note run = sliding_window_run [OF assms(1,2), of limit now, folded windowMs_def,
      folded s1_def, folded cur_def, folded result_def]
  have card: "cur < limit \<longrightarrow> int (length (members (snd result) key)) \<le> limit"
    using length_zset_add [of "of_int now" "of_int now" "members s1 key"]
    by (simp add: run(2) cur_def)
  have kept: "set (members s1 key) \<subseteq> set (members s key)"
    unfolding s1_def by (simp add: evict_record(3) [OF assms(2)])
  have nonneg: "0 \<le> now \<longrightarrow> (\<forall>p \<in> set (members (snd result) key). 0 \<le> snd p)"
  proof (intro impI ballI)
    fix p assume now: "0 \<le> now" and p: "p \<in> set (members (snd result) key)"
    from p have "p = (of_int now, of_int now) \<or> p \<in> set (members s1 key)"
      using set_zset_add [of "of_int now" "of_int now" "members s1 key"]
      by (auto simp: run(2) split: if_splits)
    then show "0 \<le> snd p"
    proof
      assume "p = (of_int now, of_int now)"
      with now show ?thesis by simp
    next
      assume "p \<in> set (members s1 key)"
      with kept have "p \<in> set (members s key)" by blast
      with assms(3) show ?thesis by blast
    qed
  qed
  from ev scores run(2) card run(1) nonneg show ?thesis
    by (intro conjI)
qed

lemma sliding_window_scenario:
  "fst (decisions key 3 1 ''sliding_window'' [0, 200, 400, 500, 1100] fresh_client) =
     [Inr \<lparr>allowed = True, remaining = 2, resetAt = 1000\<rparr>,
      Inr \<lparr>allowed = True, remaining = 1, resetAt = 1200\<rparr>,
      Inr \<lparr>allowed = True, remaining = 0, resetAt = 1400\<rparr>,
      Inr \<lparr>allowed = False, remaining = 0, resetAt = 1500\<rparr>,
      Inr \<lparr>allowed = True, remaining = 0, resetAt = 2100\<rparr>]"
  by (simp add: client_defs script_defs command_defs rat_eval Let_def)

theorem sliding_window_invariant_witness:
  "window_record [''k'' \<mapsto> (RZSet [(0, 0), (200, 200), (400, 400)], Some 1000)] ''k''
   \<and> members (evicted ''k'' 100 [''k'' \<mapsto> (RZSet [(0, 0), (200, 200), (400, 400)], Some 1000)]) ''k'' =
       [(200, 200), (400, 400)]
   \<and> sliding_window_lua ''k'' 3 100 1100 1000
        [''k'' \<mapsto> (RZSet [(0, 0), (200, 200), (400, 400)], Some 1000)] =
       (Inr [1, 0, 2100],
        [''k'' \<mapsto> (RZSet [(200, 200), (400, 400), (1100, 1100)], Some 1000)])
   \<and> fst (decisions ''k'' 3 1 ''sliding_window'' [0, 200, 400, 500, 1100] fresh_client) =
     [Inr \<lparr>allowed = True, remaining = 2, resetAt = 1000\<rparr>,
      Inr \<lparr>allowed = True, remaining = 1, resetAt = 1200\<rparr>,
      Inr \<lparr>allowed = True, remaining = 0, resetAt = 1400\<rparr>,
      Inr \<lparr>allowed = False, remaining = 0, resetAt = 1500\<rparr>,
      Inr \<lparr>allowed = True, remaining = 0, resetAt = 2100\<rparr>]"
  using sliding_window_invariant [of 1 "[''k'' \<mapsto> (RZSet [(0, 0), (200, 200), (400, 400)], Some 1000)]"
      "''k''" 1100 3]
    sliding_window_scenario [of "''k''"]
  by (simp add: window_record_def members_def evicted_def script_defs command_defs rat_eval)

section \<open>The leaky bucket under the quota inspector\<close>

lemma sha1hex_inject: "sha1hex a = sha1hex b \<Longrightarrow> a = b"
  by (cases a; cases b; simp)

lemma leaky_record_cases:
  assumes "leaky_record s key"
  obtains "s key = None"
  | h t where "s key = Some (RHash h, t)" and "dom h \<subseteq> {''water'', ''last_leak''}"
  using assms
  by (auto simp: leaky_record_def split: option.splits rvalue.splits prod.splits)

lemma leaky_record_hmset:
  assumes "leaky_record s key"
  obtains s1 where "redis_hmset key ''water'' w ''last_leak'' l s = Inr s1" and "leaky_record s1 key"
  using assms
proof (cases rule: leaky_record_cases)
  case 1
  have "leaky_record (s(key \<mapsto> (RHash [''water'' \<mapsto> w, ''last_leak'' \<mapsto> l], None))) key"
    by (simp add: leaky_record_def)
  with 1 that show ?thesis
    by (simp add: redis_hmset_def)
next
  case (2 h t)
  have "leaky_record (s(key \<mapsto> (RHash (h(''water'' \<mapsto> w, ''last_leak'' \<mapsto> l)), t))) key"
    using 2(2) by (auto simp: leaky_record_def)
  with 2(1) that show ?thesis
    by (simp add: redis_hmset_def)
qed

lemma leaky_record_expire:
  assumes "leaky_record s key" and "redis_expire key x s = Inr s1"
  shows "leaky_record s1 key"
  using assms(1)
proof (cases rule: leaky_record_cases)
  case 1
  with assms(2) have "s1 = s"
    by (simp add: redis_expire_def split: if_splits)
  with assms(1) show ?thesis
    by simp
next
  case (2 h t)
  with assms(2) have "s1 = s(key := None) \<or> s1 = s(key \<mapsto> (RHash h, Some (\<lfloor>x\<rfloor> * 1000)))"
    by (auto simp: redis_expire_def split: if_splits)
  then show ?thesis
    using 2(2) by (auto simp: leaky_record_def)
qed

lemma leaky_bucket_keeps_record:
  assumes "leaky_record s key"
  shows "leaky_record (snd (leaky_bucket_lua key capacity leak_rate now s)) key"
proof -
  obtain b1 b2 where g: "redis_hmget key ''water'' ''last_leak'' s = Inr (b1, b2)"
    using assms
    by (cases rule: leaky_record_cases) (simp_all add: redis_hmget_def)
  obtain w a where p: "pour capacity (leak leak_rate now b1 b2) = (w, a)"
    by (cases "pour capacity (leak leak_rate now b1 b2)")
  show ?thesis
  proof (cases "call_hmset key ''water'' w ''last_leak'' (Finite now) s")
    case (Inl e)
    with assms show ?thesis
      by (simp add: leaky_bucket_lua_def g p)
  next
    case (Inr s1)
    then obtain x where "redis_hmset key ''water'' x ''last_leak'' now s = Inr s1"
      by (auto simp: call_hmset_def split: double.splits)
    moreover obtain s1' where "redis_hmset key ''water'' x ''last_leak'' now s = Inr s1'"
      and "leaky_record s1' key"
      using assms by (rule leaky_record_hmset)
    ultimately have r1: "leaky_record s1 key"
      by simp
    show ?thesis
    proof (cases "call_expire key (ddiv (Finite capacity) leak_rate) s1")
      case (Inl e)
      with r1 Inr show ?thesis
        by (simp add: leaky_bucket_lua_def g p)
    next
      case ex: (Inr s2)
      then obtain y where "redis_expire key y s1 = Inr s2"
        by (auto simp: call_expire_def split: double.splits)
      with r1 have "leaky_record s2 key"
        by (rule leaky_record_expire)
      with Inr ex show ?thesis
        by (simp add: leaky_bucket_lua_def g p)
    qed
  qed
qed

lemma cache_ok_arrive:
  assumes "cache_ok r"
  shows "cache_ok (arrive r)"
  using assms by (auto simp: cache_ok_def arrive_def split: list.splits bool.splits)

lemma issue_fields:
  "keyspace (snd (issue cmd r)) = keyspace r"
  "script_cache (snd (issue cmd r)) = script_cache (arrive r)"
  by (simp_all add: issue_def arrive_fields split: list.splits option.splits)

lemma run_on_fields:
  "keyspace (snd (run_on script keys args r)) = snd (run_script script keys args (keyspace r))"
  "script_cache (snd (run_on script keys args r)) = script_cache r"
  by (simp_all add: run_on_def split: prod.splits)

lemma client_evalsha_effect:
  assumes "cache_ok r"
  shows "ran_at_most script keys args r (snd (client_evalsha (sha1hex script) keys args r))"
    and "cache_ok (snd (client_evalsha sha keys args r))"
proof -
  obtain e r1 where i: "issue (EVALSHA (sha1hex script) keys args) r = (e, r1)"
    by (cases "issue (EVALSHA (sha1hex script) keys args) r")
  have k1: "keyspace r1 = keyspace r" and c1: "script_cache r1 = script_cache (arrive r)"
    using issue_fields [of "EVALSHA (sha1hex script) keys args" r] i by simp_all
  have ok: "cache_ok (arrive r)"
    using assms by (rule cache_ok_arrive)
  show "ran_at_most script keys args r (snd (client_evalsha (sha1hex script) keys args r))"
  proof (cases "script_cache (arrive r) (sha1hex script)")
    case None
    then show ?thesis
      using i k1 c1 by (auto simp: client_evalsha_def ran_at_most_def split: option.splits)
  next
    case (Some x)
    with ok have "sha1hex script = sha1hex x"
      by (simp add: cache_ok_def)
    then have "x = script"
      using sha1hex_inject by blast
    with Some show ?thesis
      using i k1 c1 by (auto simp: client_evalsha_def ran_at_most_def run_on_fields split: option.splits)
  qed
  have "script_cache (snd (client_evalsha sha keys args r)) = script_cache (arrive r)"
    using issue_fields(2) [of "EVALSHA sha keys args" r]
    by (auto simp: client_evalsha_def run_on_fields split: prod.splits option.splits)
  with ok show "cache_ok (snd (client_evalsha sha keys args r))"
    by (simp add: cache_ok_def)
qed

lemma client_evalsha_noscript:
  assumes "client_evalsha sha keys args r = (Inl err, r1)" and "message_includes err ''NOSCRIPT''"
  shows "keyspace r1 = keyspace r"
proof -
  have "fst (client_evalsha sha keys args r) = Inl err"
    using assms(1) by simp
  from this assms(2) have "script_cache (arrive r) sha = None"
    by (rule client_evalsha_lost)
  then show ?thesis
    using assms(1) issue_fields [of "EVALSHA sha keys args" r]
    by (auto simp: client_evalsha_def split: prod.splits option.splits)
qed

lemma client_script_load_effect:
  assumes "cache_ok r"
  shows "keyspace (snd (client_script_load script r)) = keyspace r"
    and "cache_ok (snd (client_script_load script r))"
  using cache_ok_arrive [OF assms] issue_fields [of "SCRIPT_LOAD script" r]
  by (auto simp: client_script_load_def cache_ok_def split: prod.splits option.splits if_splits)

lemma client_eval_effect:
  assumes "cache_ok r"
  shows "ran_at_most script keys args r (snd (client_eval script keys args r))"
    and "cache_ok (snd (client_eval script keys args r))"
  using cache_ok_arrive [OF assms] issue_fields [of "EVAL script keys args" r]
  by (auto simp: client_eval_def cache_ok_def ran_at_most_def run_on_fields
      split: prod.splits option.splits if_splits)

lemma cache_ok_evalsha:
  assumes "cache_ok r"
  shows "cache_ok (snd (client_evalsha sha keys args r))"
  using assms by (rule client_evalsha_effect(2))


lemma cached_sha_client [simp]: "cached_sha (c\<lparr>client := r\<rparr>) name = cached_sha c name"
  by (simp add: cached_sha_def)

lemma shas_ok_client [simp]: "shas_ok (c\<lparr>client := r\<rparr>) = shas_ok c"
  by (simp add: shas_ok_def)

lemma registered_client:
  assumes "registered c" and "cache_ok r"
  shows "registered (c\<lparr>client := r\<rparr>)"
  using assms by (simp add: registered_def)

lemma shas_ok_update:
  assumes "shas_ok c" and "LUA_SCRIPTS scriptName = Some script"
  shows "shas_ok (c\<lparr>scriptShas := (scriptShas c)(scriptName \<mapsto> sha1hex script), client := r\<rparr>)"
  using assms by (auto simp: shas_ok_def cached_sha_def split: option.splits if_splits)

text \<open>The runner runs the named script at most once, and nothing else touches the keys.\<close>

lemma runner_effect:
  assumes "registered c" and "LUA_SCRIPTS scriptName = Some script"
  shows "ran_at_most script keys args (client c)
           (client (snd (evalWithFallback scriptName keys args c)))
         \<and> registered (snd (evalWithFallback scriptName keys args c))"
proof (cases "cached_sha c scriptName")
  case None
  obtain res r1 where ev: "client_eval script keys args (client c) = (res, r1)"
    by (cases "client_eval script keys args (client c)")
  have ok: "cache_ok (client c)"
    using assms(1) by (simp add: registered_def)
  from client_eval_effect [OF ok, of script keys args] ev
  have "ran_at_most script keys args (client c) r1" and "cache_ok r1"
    by simp_all
  with runner_direct(1) [OF None assms(2) ev] assms(1) show ?thesis
    by (simp add: registered_client)
next
  case (Some sha)
  have ok: "cache_ok (client c)" and shas: "shas_ok c"
    using assms(1) by (simp_all add: registered_def)
  from shas Some obtain script' where "LUA_SCRIPTS scriptName = Some script'" and "sha = sha1hex script'"
    unfolding shas_ok_def by blast
  with assms(2) have sha: "sha = sha1hex script"
    by simp
  obtain res1 r1 where first: "client_evalsha sha keys args (client c) = (res1, r1)"
    by (cases "client_evalsha sha keys args (client c)")
  from client_evalsha_effect(1) [OF ok, of script keys args] first sha
  have ran1: "ran_at_most script keys args (client c) r1"
    by simp
  from cache_ok_evalsha [OF ok, of sha keys args] first have ok1: "cache_ok r1"
    by simp
  show ?thesis
  proof (cases res1)
    case (Inr result)
    with runner_hit(1) [OF Some] first ran1 ok1 assms(1) show ?thesis
      by (simp add: registered_client)
  next
    case (Inl err)
    then have f: "client_evalsha sha keys args (client c) = (Inl err, r1)"
      using first by simp
    show ?thesis
    proof (cases "message_includes err ''NOSCRIPT''")
      case False
      with runner_other_error(1) [OF Some f] ran1 ok1 assms(1) show ?thesis
        by (simp add: registered_client)
    next
      case True
      from f True have k1: "keyspace r1 = keyspace (client c)"
        by (rule client_evalsha_noscript)
      obtain res2 r2 where load: "client_script_load script r1 = (res2, r2)"
        by (cases "client_script_load script r1")
      from client_script_load_effect [OF ok1, of script] load
      have k2: "keyspace r2 = keyspace r1" and ok2: "cache_ok r2"
        by simp_all
      show ?thesis
      proof (cases res2)
        case (Inl err2)
        with load have l: "client_script_load script r1 = (Inl err2, r2)"
          by simp
        have "ran_at_most script keys args (client c) r2"
          using k1 k2 by (simp add: ran_at_most_def)
        with runner_reload_fails(1) [OF Some f True assms(2) l] ok2 assms(1) show ?thesis
          by (simp add: registered_client)
      next
        case (Inr newSha)
        with load have l: "client_script_load script r1 = (Inr newSha, r2)"
          by simp
        then have n: "newSha = sha1hex script"
          by (rule client_script_load_result)
        obtain res r3 where retry: "client_evalsha newSha keys args r2 = (res, r3)"
          by (cases "client_evalsha newSha keys args r2")
        from client_evalsha_effect(1) [OF ok2, of script keys args] retry n
        have "ran_at_most script keys args r2 r3"
          by simp
        then have ran: "ran_at_most script keys args (client c) r3"
          using k1 k2 by (simp add: ran_at_most_def)
        from cache_ok_evalsha [OF ok2, of newSha keys args] retry have ok3: "cache_ok r3"
          by simp
        have "shas_ok (c\<lparr>scriptShas := (scriptShas c)(scriptName \<mapsto> sha1hex script), client := r3\<rparr>)"
          using shas assms(2) by (rule shas_ok_update)
        with runner_reload(1) [OF Some f True assms(2) l retry] ran ok3 n show ?thesis
          by (simp add: registered_def)
      qed
    qed
  qed
qed

lemma tonumber_toString: "tonumber (toString d) = Some d"
  by (cases d) simp_all

lemma leakyBucket_effect:
  assumes "registered c" and "leaky_record (keyspace (client c)) key"
  shows "registered (snd (leakyBucket key limit windowSeconds now c))
         \<and> leaky_record (keyspace (client (snd (leakyBucket key limit windowSeconds now c)))) key"
proof -
  define leakRate where "leakRate = ddiv (Finite (of_int limit)) (Finite (of_int windowSeconds))"
  let ?args = "[ANum (of_int limit), toString leakRate, ANum (of_int now)]"
  let ?c' = "snd (evalWithFallback ''leakyBucket'' [key] ?args c)"
  have src: "LUA_SCRIPTS ''leakyBucket'' = Some LeakyBucketScript"
    by (simp add: LUA_SCRIPTS_def)
  have snd: "snd (leakyBucket key limit windowSeconds now c) = ?c'"
    by (simp add: leakyBucket_def Let_def leakRate_def split: prod.splits sum.splits)
  have run: "run_script LeakyBucketScript [key] ?args s =
      leaky_bucket_lua key (of_int limit) leakRate (of_int now) s" for s
    by (simp add: run_script_def tonumber_toString)
  from runner_effect [OF assms(1) src, of "[key]" ?args]
  have ran: "ran_at_most LeakyBucketScript [key] ?args (client c) (client ?c')"
    and reg: "registered ?c'"
    by simp_all
  from ran have "leaky_record (keyspace (client ?c')) key"
    using assms(2) leaky_bucket_keeps_record [OF assms(2)]
    by (auto simp: ran_at_most_def run)
  with reg snd show ?thesis
    by simp
qed

lemma leaky_calls_effect:
  assumes "registered c" and "leaky_record (keyspace (client c)) key"
  shows "registered (leaky_calls key calls c)
         \<and> leaky_record (keyspace (client (leaky_calls key calls c))) key"
  using assms
proof (induction calls arbitrary: c)
  case Nil
  then show ?case by simp
next
  case (Cons call calls)
  obtain limit windowSeconds now where call: "call = (limit, windowSeconds, now)"
    by (cases call)
  from leakyBucket_effect [OF Cons.prems, of limit windowSeconds now]
  have "registered (snd (leakyBucket key limit windowSeconds now c))"
    and "leaky_record (keyspace (client (snd (leakyBucket key limit windowSeconds now c)))) key"
    by simp_all
  then show ?case
    unfolding call leaky_calls.simps by (rule Cons.IH)
qed

lemma quota_of_leaky_record:
  assumes "leaky_record (keyspace (client c)) key"
  shows "fst (getQuotaStatus key ''leaky_bucket'' c) = \<lparr>quota_remaining = 0, quota_total = 0\<rparr>"
proof -
  have ne: "''leaky_bucket'' \<noteq> ''sliding_window''"
    by simp
  obtain res r1 where h: "client_hgetall key (client c) = (res, r1)"
    by (cases "client_hgetall key (client c)")
  show ?thesis
  proof (cases res)
    case (Inl e)
    with h show ?thesis
      by (simp add: quota_other [OF ne])
  next
    case (Inr data)
    with h have "redis_hgetall key (keyspace (client c)) = Inr data"
      by (auto simp: client_hgetall_def issue_def arrive_fields
          split: list.splits option.splits prod.splits)
    with assms have "data ''tokens'' = None"
      by (cases rule: leaky_record_cases) (auto simp: redis_hgetall_def)
    with h Inr show ?thesis
      by (simp add: quota_other [OF ne])
  qed
qed

text \<open>The \<open>ready\<close> event and a flush of the store's cache keep the digests in order.\<close>

lemma load_each_registered:
  assumes "registered c"
    and "\<forall>entry \<in> set entries. LUA_SCRIPTS (fst entry) = Some (snd entry)"
  shows "registered (load_each entries c)"
  using assms
proof (induction entries arbitrary: c)
  case Nil
  then show ?case by simp
next
  case (Cons entry entries)
  obtain name script where entry: "entry = (name, script)"
    by (cases entry)
  with Cons.prems(2) have src: "LUA_SCRIPTS name = Some script"
    by simp
  have ok: "cache_ok (client c)" and shas: "shas_ok c"
    using Cons.prems(1) by (simp_all add: registered_def)
  obtain res r where load: "client_script_load script (client c) = (res, r)"
    by (cases "client_script_load script (client c)")
  from client_script_load_effect(2) [OF ok, of script] load have okr: "cache_ok r"
    by simp
  have rest: "\<forall>entry \<in> set entries. LUA_SCRIPTS (fst entry) = Some (snd entry)"
    using Cons.prems(2) by simp
  show ?case
  proof (cases res)
    case (Inl e)
    have "registered (c\<lparr>client := r\<rparr>)"
      using Cons.prems(1) okr by (rule registered_client)
    then have "registered (load_each entries (c\<lparr>client := r\<rparr>))"
      using rest by (rule Cons.IH)
    with load Inl show ?thesis
      by (simp add: entry)
  next
    case (Inr sha)
    with load have "sha = sha1hex script"
      using client_script_load_result(1) by blast
    moreover have "shas_ok (c\<lparr>scriptShas := (scriptShas c)(name \<mapsto> sha1hex script), client := r\<rparr>)"
      using shas src by (rule shas_ok_update)
    ultimately have "registered (c\<lparr>scriptShas := (scriptShas c)(name \<mapsto> sha), client := r\<rparr>)"
      using okr by (simp add: registered_def)
    then have "registered (load_each entries (c\<lparr>scriptShas := (scriptShas c)(name \<mapsto> sha), client := r\<rparr>))"
      using rest by (rule Cons.IH)
    with load Inr show ?thesis
      by (simp add: entry)
  qed
qed

lemma loadScriptShas_registered:
  assumes "registered c"
  shows "registered (loadScriptShas c)"
  unfolding loadScriptShas_def using assms
  by (rule load_each_registered) (simp add: LUA_SCRIPTS_def)

lemma script_flush_registered:
  assumes "registered c"
  shows "registered (script_flush c)"
  using assms by (simp add: registered_def script_flush_def cache_ok_def shas_ok_def cached_sha_def)

text \<open>
  Claim C10. For every bucket maintained by the leaky-bucket algorithm, whose record holds
  only the fields \<open>water\<close> and \<open>last_leak\<close>, \<open>getQuotaStatus(key, "leaky_bucket")\<close> returns
  \<open>{remaining = 0, total = 0}\<close> whatever the occupancy of the bucket is: the inspector
  reads the hash field \<open>tokens\<close>, which \<open>leaky-bucket.lua\<close> never writes, and reads its
  absence as 0. Stated for any sequence of \<open>leakyBucket\<close> calls, with any parameters and
  outcomes, from a key that is absent or already such a record, on a client whose
  digests are in order.
\<close>

theorem leaky_bucket_quota_always_zero:
  assumes "registered c" and "leaky_record (keyspace (client c)) key"
  shows "fst (getQuotaStatus key ''leaky_bucket'' (leaky_calls key calls c)) =
           \<lparr>quota_remaining = 0, quota_total = 0\<rparr>"
proof -
  from leaky_calls_effect [OF assms, of calls]
  have "leaky_record (keyspace (client (leaky_calls key calls c))) key"
    by simp
  then show ?thesis
    by (rule quota_of_leaky_record)
qed

lemma registered_fresh: "registered fresh_client"
  by (simp add: registered_def cache_ok_def shas_ok_def cached_sha_def fresh_client_def fresh_server_def)

theorem leaky_bucket_quota_always_zero_witness:
  "hash_field (keyspace (client (leaky_calls ''k'' [(5, 5, 0), (5, 5, 0), (5, 5, 0), (5, 5, 0), (5, 5, 0)]
                                   fresh_client))) ''k'' ''water'' = Some 5
   \<and> fst (getQuotaStatus ''k'' ''leaky_bucket''
            (leaky_calls ''k'' [(5, 5, 0), (5, 5, 0), (5, 5, 0), (5, 5, 0), (5, 5, 0)] fresh_client)) =
       \<lparr>quota_remaining = 0, quota_total = 0\<rparr>"
proof -
  have rec: "leaky_record (keyspace (client fresh_client)) ''k''"
    by (simp add: leaky_record_def fresh_client_def fresh_server_def)
  have water: "hash_field (keyspace (client (leaky_calls ''k''
      [(5, 5, 0), (5, 5, 0), (5, 5, 0), (5, 5, 0), (5, 5, 0)] fresh_client))) ''k'' ''water'' = Some 5"
    by (simp add: client_defs script_defs command_defs rat_eval double_eval Let_def hash_field_def)
  from leaky_bucket_quota_always_zero [OF registered_fresh rec] water show ?thesis
    by (intro conjI)
qed

section \<open>The remaining quota\<close>

text \<open>The token bucket and the sliding window reply a \<open>remaining\<close> that is not negative.\<close>

lemma token_bucket_remaining:
  fixes limit windowSeconds now :: int
  assumes "0 < limit" and "limit < 2 ^ 53" and "0 < windowSeconds" and "0 \<le> now"
    and "now + windowSeconds * 1000 < 2 ^ 53"
    and "s key = None \<or>
         (\<exists>h t tokens last_refill. s key = Some (RHash h, t) \<and> h ''tokens'' = Some tokens
            \<and> h ''last_refill'' = Some (of_int last_refill)
            \<and> 0 \<le> tokens \<and> tokens \<le> of_int limit \<and> 0 \<le> last_refill \<and> last_refill \<le> now)"
  shows "\<exists>a remaining reset. fst (token_bucket_lua key (of_int limit) (of_int windowSeconds)
                                      (of_int now) s) = Inr [a, remaining, reset]
                               \<and> 0 \<le> remaining"
  using assms(6)
proof
  assume "s key = None"
  from token_bucket_fresh [where s = s and key = key, OF assms(1-5) this] assms(1) show ?thesis
    by simp
next
  assume "\<exists>h t tokens last_refill. s key = Some (RHash h, t) \<and> h ''tokens'' = Some tokens
            \<and> h ''last_refill'' = Some (of_int last_refill)
            \<and> 0 \<le> tokens \<and> tokens \<le> of_int limit \<and> 0 \<le> last_refill \<and> last_refill \<le> now"
  then obtain h t tokens and last_refill :: int where
    rec: "s key = Some (RHash h, t)" "h ''tokens'' = Some tokens"
      "h ''last_refill'' = Some (of_int last_refill)"
    and b: "0 \<le> tokens" "tokens \<le> of_int limit" "0 \<le> last_refill" "last_refill \<le> now"
    by blast
  have "(of_int limit :: rat) \<le> 2 ^ 53"
    using assms(2) by (simp add: of_int_le_numeral_power_cancel_iff)
  with b(1,2) have tb: "\<bar>tokens\<bar> \<le> 2 ^ 53"
    by simp
  have lr: "(of_int last_refill :: rat) \<le> of_int now"
    using b(4) by simp
  note bounds = double_refilled_bounds [OF assms(1-3) b(1) lr]
  note run = token_bucket_existing [where s = s and key = key and h = h,
      OF assms(1-3) b(3,4) assms(5) rec tb]
  show ?thesis
    using bounds(3) by (simp add: run)
qed

lemma sliding_window_remaining:
  fixes limit windowSeconds now :: int
  assumes "0 < windowSeconds" and "window_record s key"
  shows "\<exists>a remaining reset.
           fst (sliding_window_lua key (of_int limit) (of_int (now - windowSeconds * 1000)) (of_int now)
                  (of_int (windowSeconds * 1000)) s) = Inr [a, remaining, reset]
           \<and> 0 \<le> remaining"
  using sliding_window_run(1) [OF assms, of limit now] by simp

text \<open>
  Claim C2 (\<open>remaining \<ge> 0\<close> in every envelope of \<open>checkRateLimit\<close>, for every strategy,
  \<open>limit > 0\<close>, \<open>windowSeconds > 0\<close> and reachable state) fails on the code for the leaky
  bucket. \<open>leaky-bucket.lua\<close> replies \<open>floor(capacity - water)\<close> with no clamp at 0, as
  \<open>sliding-window.lua\<close> has one, and its admission test \<open>water < capacity\<close> lets \<open>water\<close>
  exceed \<open>capacity\<close>. With \<open>limit = 5\<close> and \<open>windowSeconds = 5\<close> on a fresh key, five calls
  at \<open>t = 0\<close> fill the bucket; the call at \<open>t = 500\<close> is allowed with \<open>remaining = -1\<close>.
\<close>

theorem leaky_bucket_negative_remaining:
  "fst (decisions key 5 5 ''leaky_bucket'' [0, 0, 0, 0, 0, 500] fresh_client) =
     [Inr \<lparr>allowed = True, remaining = 4, resetAt = 1000\<rparr>,
      Inr \<lparr>allowed = True, remaining = 3, resetAt = 2000\<rparr>,
      Inr \<lparr>allowed = True, remaining = 2, resetAt = 3000\<rparr>,
      Inr \<lparr>allowed = True, remaining = 1, resetAt = 4000\<rparr>,
      Inr \<lparr>allowed = True, remaining = 0, resetAt = 5000\<rparr>,
      Inr \<lparr>allowed = True, remaining = - 1, resetAt = 6000\<rparr>]"
  by (simp add: client_defs script_defs command_defs rat_eval double_eval Let_def)

end
